theory Spec2Isabelle
  imports Main "HOL-Library.Word"
begin

section \<open>The nghttp command-line client (src/nghttp.cc)\<close>

text \<open>
  A shallow embedding of the client of \<^verbatim>\<open>src/nghttp.cc\<close>. Strings are byte lists.
  Pointers to \<^verbatim>\<open>Request\<close> objects are indices into \<^verbatim>\<open>reqvec\<close> (the vector owns its
  requests through \<^verbatim>\<open>unique_ptr\<close>, so an index is a stable handle); a null pointer is
  \<open>None\<close>. A failed \<^verbatim>\<open>assert\<close>, a null dereference and a write outside an allocated array
  are values of the type \<open>error\<close>.
\<close>

subsection \<open>Parsed URIs\<close>

text \<open>
  \<^verbatim>\<open>http_parser_url\<close> comes from the bundled http-parser header, which is not among the
  sources. Its \<^verbatim>\<open>field_set\<close> is a bit mask indexed by the enumeration constants; it is kept
  as the set of fields whose bit is set. \<^verbatim>\<open>field_data[f]\<close> is the pair (off, len).
\<close>

datatype http_parser_url_fields =
  UF_SCHEMA | UF_HOST | UF_PORT | UF_PATH | UF_QUERY | UF_FRAGMENT | UF_USERINFO

record http_parser_url =
  field_set :: "http_parser_url_fields set"
  port :: "16 word"
  field_data :: "http_parser_url_fields \<Rightarrow> nat \<times> nat"

text \<open>The URI parser itself is external: a parameter giving the return code and the
  filled structure.\<close>

type_synonym url_parser = "string \<Rightarrow> int \<times> http_parser_url"

definition NUL :: char where
  "NUL = CHR 0x00"

text \<open>The characters a \<^verbatim>\<open>const char *\<close> reader sees: up to the first zero byte.\<close>

definition c_str :: "string \<Rightarrow> string" where
  "c_str s = takeWhile (\<lambda>c. c \<noteq> NUL) s"

definition has_uri_field :: "http_parser_url \<Rightarrow> http_parser_url_fields \<Rightarrow> bool" where
  "has_uri_field u field = (field \<in> field_set u)"

text \<open>The bytes \<^verbatim>\<open>uri + off\<close> .. \<^verbatim>\<open>uri + off + len\<close> of a field.\<close>

definition field_bytes :: "string \<Rightarrow> http_parser_url \<Rightarrow> http_parser_url_fields \<Rightarrow> string" where
  "field_bytes s u field = take (snd (field_data u field)) (drop (fst (field_data u field)) s)"

text \<open>\<^verbatim>\<open>fieldeq(uri1, u1, uri2, u2, field)\<close>: the same field of two URIs.\<close>

definition fieldeq :: "string \<Rightarrow> http_parser_url \<Rightarrow> string \<Rightarrow> http_parser_url \<Rightarrow>
    http_parser_url_fields \<Rightarrow> bool" where
  "fieldeq s1 u1 s2 u2 field =
     (if \<not> has_uri_field u1 field then
        (if \<not> has_uri_field u2 field then True else False)
      else if \<not> has_uri_field u2 field then False
      else if snd (field_data u1 field) \<noteq> snd (field_data u2 field) then False
      else field_bytes s1 u1 field =
           take (snd (field_data u1 field)) (drop (fst (field_data u2 field)) s2))"

text \<open>The loop of \<^verbatim>\<open>fieldeq(uri, u, field, t)\<close>:
  \<^verbatim>\<open>for(i = 0; i < len && t[i] && p[i] == t[i]; ++i); return i == len && !t[i];\<close>
  over the \<open>len\<close> bytes at \<open>p\<close> and the characters of \<open>t\<close> before its terminator.\<close>

fun fieldeq_loop :: "string \<Rightarrow> string \<Rightarrow> bool" where
  "fieldeq_loop [] t = (t = [])"
| "fieldeq_loop (c # p) [] = False"
| "fieldeq_loop (c # p) (d # t) = (if c = d then fieldeq_loop p t else False)"

definition fieldeq_str :: "string \<Rightarrow> http_parser_url \<Rightarrow> http_parser_url_fields \<Rightarrow>
    string \<Rightarrow> bool" where
  "fieldeq_str s u field t =
     (if \<not> has_uri_field u field then (if c_str t = [] then True else False)
      else if c_str t = [] then False
      else fieldeq_loop (field_bytes s u field) (c_str t))"

definition get_default_port :: "string \<Rightarrow> http_parser_url \<Rightarrow> 16 word" where
  "get_default_port s u =
     (if fieldeq_str s u UF_SCHEMA ''https'' then 443
      else if fieldeq_str s u UF_SCHEMA ''http'' then 80
      else 443)"

definition get_uri_field :: "string \<Rightarrow> http_parser_url \<Rightarrow> http_parser_url_fields \<Rightarrow> string" where
  "get_uri_field s u field = (if has_uri_field u field then field_bytes s u field else '''')"

definition effective_port :: "string \<Rightarrow> http_parser_url \<Rightarrow> 16 word" where
  "effective_port s u = (if has_uri_field u UF_PORT then port u else get_default_port s u)"

definition porteq :: "string \<Rightarrow> http_parser_url \<Rightarrow> string \<Rightarrow> http_parser_url \<Rightarrow> bool" where
  "porteq s1 u1 s2 u2 = (effective_port s1 u1 = effective_port s2 u2)"

text \<open>\<^verbatim>\<open>strip_fragment\<close>: the prefix before the first \<^verbatim>\<open>#\<close> (or the terminator).\<close>

definition strip_fragment :: "string \<Rightarrow> string" where
  "strip_fragment raw_uri = takeWhile (\<lambda>c. c \<noteq> NUL \<and> c \<noteq> CHR ''#'') raw_uri"

subsection \<open>Configuration\<close>

record Config =
  null_out :: bool
  remote_name :: bool
  verbose :: bool
  get_assets :: bool
  stat_flag :: bool
  no_tls :: bool
  multiply :: int
  timeout :: int
  window_bits :: int
  headers :: "(string \<times> string) list"
  datafile :: string
  output_upper_thres :: nat

text \<open>The constructor \<^verbatim>\<open>Config::Config\<close>. \<^verbatim>\<open>headers\<close> is a \<^verbatim>\<open>std::map\<close>; it is kept as
  the list of its entries in iteration order.\<close>

definition Config_init :: Config where
  "Config_init = \<lparr> null_out = False, remote_name = False, verbose = False,
     get_assets = False, stat_flag = False, no_tls = False, multiply = 1,
     timeout = - 1, window_bits = - 1, headers = [], datafile = '''',
     output_upper_thres = 1024 * 1024 \<rparr>"

text \<open>The case \<^verbatim>\<open>'t'\<close> of \<^verbatim>\<open>main\<close>: \<^verbatim>\<open>config.timeout = atoi(optarg) * 1000\<close>. The argument
  \<open>n\<close> is the \<^verbatim>\<open>int\<close> that \<^verbatim>\<open>atoi\<close> returns, a 32-bit word; the product is taken in 32 bits
  and wraps around, and the field holds it as a signed value.\<close>

definition main_opt_t :: "32 word \<Rightarrow> Config \<Rightarrow> Config" where
  "main_opt_t n config = config \<lparr> timeout := sint (n * 1000) \<rparr>"

text \<open>A \<^verbatim>\<open>timeval\<close> is (tv_sec, tv_usec). A \<^verbatim>\<open>bufferevent\<close> keeps what the client sets
  on it: the enabled events and the read and write timeouts.\<close>

type_synonym timeval = "int \<times> int"

record bufferevent =
  ev_read_enabled :: bool
  read_timeout :: "timeval option"
  write_timeout :: "timeval option"
  output_buf :: string

definition bufferevent_new :: bufferevent where
  "bufferevent_new = \<lparr> ev_read_enabled = False, read_timeout = None,
     write_timeout = None, output_buf = '''' \<rparr>"

text \<open>\<^verbatim>\<open>HttpClient::initiate_connection\<close>. Creating the TLS object, setting the server
  name and starting the connection are external; \<open>ssl_ok\<close> says that the TLS steps
  succeeded (vacuously without TLS) and \<open>rv\<close> is what
  \<^verbatim>\<open>bufferevent_socket_connect_hostname\<close> returns.\<close>

definition initiate_connection :: "Config \<Rightarrow> bool \<Rightarrow> int \<Rightarrow> int \<times> bufferevent option" where
  "initiate_connection config ssl_ok rv =
     (if \<not> ssl_ok then (- 1, None)
      else if rv \<noteq> 0 then (- 1, Some bufferevent_new)
      else
        let bev = bufferevent_new \<lparr> ev_read_enabled := True \<rparr>;
            bev = (if timeout config \<noteq> - 1
                   then bev \<lparr> read_timeout := Some (timeout config, 0),
                              write_timeout := Some (timeout config, 0) \<rparr>
                   else bev)
        in (0, Some bev))"

subsection \<open>Grouping the command line into sessions\<close>

text \<open>What \<^verbatim>\<open>run\<close> finds when it opens the data file.\<close>

datatype data_file = NoDataFile | OpenFailed | StatFailed | DataFile int

text \<open>A queued request: the URI, whether a data provider is attached, and
  \<^verbatim>\<open>data_stat.st_size\<close> (\<open>None\<close> when the structure was never filled).\<close>

type_synonym queued = "string \<times> bool \<times> int option"

text \<open>The locals of \<^verbatim>\<open>run\<close>, and the calls of \<^verbatim>\<open>communicate\<close> made so far.\<close>

record run_state =
  prev_host :: string
  prev_port :: "16 word"
  failures :: int
  requests :: "queued list"
  sessions :: "(string \<times> 16 word \<times> queued list) list"

definition run_init :: run_state where
  "run_init = \<lparr> prev_host = '''', prev_port = 0, failures = 0, requests = [],
     sessions = [] \<rparr>"

text \<open>A call \<^verbatim>\<open>communicate(prev_host, prev_port, std::move(requests), &callbacks)\<close>; the
  session itself is the parameter \<open>comm\<close>, which gives the return value.\<close>

definition call_communicate :: "(string \<Rightarrow> 16 word \<Rightarrow> queued list \<Rightarrow> int) \<Rightarrow> run_state \<Rightarrow>
    run_state" where
  "call_communicate comm st =
     st \<lparr> failures := (if comm (prev_host st) (prev_port st) (requests st) \<noteq> 0
                        then failures st + 1 else failures st),
          sessions := sessions st @ [(prev_host st, prev_port st, requests st)] \<rparr>"

text \<open>One iteration of the loop over \<^verbatim>\<open>uris\<close>.\<close>

definition run_step :: "url_parser \<Rightarrow> (string \<Rightarrow> 16 word \<Rightarrow> queued list \<Rightarrow> int) \<Rightarrow>
    data_file \<Rightarrow> run_state \<Rightarrow> string \<Rightarrow> run_state" where
  "run_step parse comm df st raw =
     (let s = strip_fragment raw; (rc, u) = parse s in
      if rc = 0 \<and> has_uri_field u UF_SCHEMA then
        let p = (if has_uri_field u UF_PORT then port u else get_default_port s u);
            st1 =
              (if (if \<not> fieldeq_str s u UF_HOST (prev_host st) then True
                   else port u \<noteq> prev_port st)
               then
                 (let st0 = (if requests st \<noteq> []
                             then (call_communicate comm st) \<lparr> requests := [] \<rparr>
                             else st)
                  in st0 \<lparr> prev_host := get_uri_field s u UF_HOST, prev_port := p \<rparr>)
               else st)
        in st1 \<lparr> requests := requests st1 @
                   [(s, df \<noteq> NoDataFile, (case df of DataFile n \<Rightarrow> Some n | _ \<Rightarrow> None))] \<rparr>
      else st)"

fun run_loop :: "url_parser \<Rightarrow> (string \<Rightarrow> 16 word \<Rightarrow> queued list \<Rightarrow> int) \<Rightarrow>
    data_file \<Rightarrow> run_state \<Rightarrow> string list \<Rightarrow> run_state" where
  "run_loop parse comm df st [] = st"
| "run_loop parse comm df st (raw # uris) =
     run_loop parse comm df (run_step parse comm df st raw) uris"

text \<open>\<^verbatim>\<open>run\<close>: the return value and the sessions it ran, in order.\<close>

definition run :: "url_parser \<Rightarrow> (string \<Rightarrow> 16 word \<Rightarrow> queued list \<Rightarrow> int) \<Rightarrow>
    data_file \<Rightarrow> string list \<Rightarrow> int \<times> (string \<times> 16 word \<times> queued list) list" where
  "run parse comm df uris =
     (if df = OpenFailed \<or> df = StatFailed then (1, [])
      else
        let st = run_loop parse comm df run_init uris;
            st = (if requests st \<noteq> [] then call_communicate comm st else st)
        in (failures st, sessions st))"

text \<open>What http_parser gives for \<^verbatim>\<open>https://h/a\<close> and \<^verbatim>\<open>https://h/b\<close>: scheme at
  0..5, host at 8..9, path at 9..11, no port field, and \<^verbatim>\<open>port\<close> left at the 0 the parser
  starts from. The sample parser rejects every other string.\<close>

definition url_h :: http_parser_url where
  "url_h = \<lparr> field_set = {UF_SCHEMA, UF_HOST, UF_PATH}, port = 0,
     field_data = (\<lambda>f. case f of UF_SCHEMA \<Rightarrow> (0, 5) | UF_HOST \<Rightarrow> (8, 1)
                         | UF_PATH \<Rightarrow> (9, 2) | _ \<Rightarrow> (0, 0)) \<rparr>"

definition url_none :: http_parser_url where
  "url_none = \<lparr> field_set = {}, port = 0, field_data = (\<lambda>f. (0, 0)) \<rparr>"

definition parse_two_paths :: url_parser where
  "parse_two_paths s =
     (if s = ''https://h/a'' \<or> s = ''https://h/b'' then (0, url_h) else (1, url_none))"

subsection \<open>Case-insensitive comparison\<close>

text \<open>Modelled from the spec: \<^verbatim>\<open>util::strieq\<close> is declared in \<^verbatim>\<open>util.h\<close>, which is not
  among the sources. The spec calls it an exact, case-insensitive comparison: two strings
  are equal when they have the same length and agree after folding the ASCII letters to
  lower case.\<close>

definition lowcase :: "char \<Rightarrow> char" where
  "lowcase c =
     (case map_of (zip ''ABCDEFGHIJKLMNOPQRSTUVWXYZ'' ''abcdefghijklmnopqrstuvwxyz'') c of
        Some d \<Rightarrow> d
      | None \<Rightarrow> c)"

text \<open>Modelled from the spec: \<^verbatim>\<open>util::strieq(const char *a, const char *b)\<close> of \<^verbatim>\<open>util.h\<close>,
  the case-insensitive comparison of two terminated strings.\<close>

definition strieq :: "string \<Rightarrow> string \<Rightarrow> bool" where
  "strieq a b = (map lowcase (c_str a) = map lowcase (c_str b))"

text \<open>Modelled from the spec: \<^verbatim>\<open>util::strieq(const char *a, const uint8_t *b, size_t bn)\<close>
  of \<^verbatim>\<open>util.h\<close>, the case-insensitive comparison of a terminated string with \<open>bn\<close> bytes.\<close>

definition strieq_buf :: "string \<Rightarrow> string \<Rightarrow> bool" where
  "strieq_buf a b = (map lowcase (c_str a) = map lowcase b)"

subsection \<open>Requests, the framing session and the client\<close>

datatype error = AssertionFailed | NullPointer | DanglingPointer | OutOfBounds

record RequestStat =
  on_syn_stream_time :: timeval
  on_syn_reply_time :: timeval
  on_complete_time :: timeval

definition RequestStat_init :: RequestStat where
  "RequestStat_init = \<lparr> on_syn_stream_time = (- 1, - 1), on_syn_reply_time = (- 1, - 1),
     on_complete_time = (- 1, - 1) \<rparr>"

text \<open>\<^verbatim>\<open>struct Request\<close>. The inflater and the HTML parser are external objects of types
  \<open>'z\<close> and \<open>'p\<close>; \<open>None\<close> is the null pointer. \<^verbatim>\<open>data_prd\<close> says whether a data provider
  is attached. The field \<^verbatim>\<open>u\<close> is named \<open>req_u\<close>.\<close>

record ('z, 'p) Request =
  uri :: string
  req_u :: http_parser_url
  inflater :: "'z option"
  html_parser :: "'p option"
  data_prd :: bool
  data_length :: int
  data_offset :: int
  level :: int
  stat :: RequestStat
  status :: string

definition Request_new :: "string \<Rightarrow> http_parser_url \<Rightarrow> bool \<Rightarrow> int \<Rightarrow> int \<Rightarrow> ('z, 'p) Request" where
  "Request_new s u prd len lv = \<lparr> uri = s, req_u = u, inflater = None, html_parser = None,
     data_prd = prd, data_length = len, data_offset = 0, level = lv,
     stat = RequestStat_init, status = [] \<rparr>"

definition make_reqpath :: "('z, 'p) Request \<Rightarrow> string" where
  "make_reqpath req =
     (let path = (if has_uri_field (req_u req) UF_PATH
                  then get_uri_field (uri req) (req_u req) UF_PATH else ''/'')
      in if has_uri_field (req_u req) UF_QUERY
         then path @ ''?'' @ field_bytes (uri req) (req_u req) UF_QUERY
         else path)"

definition is_ipv6_literal_addr :: "('z, 'p) Request \<Rightarrow> bool" where
  "is_ipv6_literal_addr req =
     (if has_uri_field (req_u req) UF_HOST
      then CHR '':'' \<in> set (field_bytes (uri req) (req_u req) UF_HOST)
      else False)"

text \<open>The error codes and frame descriptions of \<^verbatim>\<open>nghttp2.h\<close> that the client uses.\<close>

datatype nghttp2_error_code =
  NGHTTP2_NO_ERROR | NGHTTP2_PROTOCOL_ERROR | NGHTTP2_INTERNAL_ERROR
  | NGHTTP2_FLOW_CONTROL_ERROR | NGHTTP2_STREAM_CLOSED | NGHTTP2_FRAME_TOO_LARGE
  | NGHTTP2_REFUSED_STREAM | NGHTTP2_CANCEL | NGHTTP2_COMPRESSION_ERROR

datatype nghttp2_frame_type =
  NGHTTP2_DATA | NGHTTP2_HEADERS | NGHTTP2_PRIORITY | NGHTTP2_RST_STREAM
  | NGHTTP2_SETTINGS | NGHTTP2_PUSH_PROMISE | NGHTTP2_PING | NGHTTP2_GOAWAY
  | NGHTTP2_WINDOW_UPDATE

datatype nghttp2_headers_category =
  NGHTTP2_HCAT_START_STREAM | NGHTTP2_HCAT_REPLY | NGHTTP2_HCAT_HEADERS

record nghttp2_frame =
  hd_type :: nghttp2_frame_type
  hd_stream_id :: int
  headers_cat :: nghttp2_headers_category
  headers_nva :: "(string \<times> string) list"

text \<open>What the client hands to the framing engine: the calls of the \<^verbatim>\<open>nghttp2_submit_*\<close>
  functions. A request carries the array \<^verbatim>\<open>nv\<close> as it stands at the call, whether a data
  provider is attached, and the request as stream user data.\<close>

datatype submission =
  SubmitSettings "nat list"
  | SubmitRequest "string option list" bool nat
  | SubmitRstStream int nghttp2_error_code
  | SubmitGoaway nghttp2_error_code

text \<open>The framing session as the client sees it: the submissions in order, the requests
  submitted and not yet given a stream, and the user data of the streams opened.\<close>

record nghttp2_session =
  submitted :: "submission list"
  pending :: "nat list"
  stream_user_data :: "int \<rightharpoonup> nat"

definition nghttp2_session_client_new :: nghttp2_session where
  "nghttp2_session_client_new = \<lparr> submitted = [], pending = [], stream_user_data = Map.empty \<rparr>"

text \<open>\<^verbatim>\<open>struct HttpClient\<close>, with the standard output the callbacks write to. The transport
  objects are left to \<open>initiate_connection\<close> and \<open>sendcb\<close>.\<close>

record ('z, 'p) HttpClient =
  session :: nghttp2_session
  reqvec :: "('z, 'p) Request list"
  streams :: "int \<rightharpoonup> nat"
  path_cache :: "string set"
  complete :: nat
  hostport :: string
  handshake_time :: timeval
  cout :: string

definition HttpClient_new :: "('z, 'p) HttpClient" where
  "HttpClient_new = \<lparr> session = nghttp2_session_client_new, reqvec = [], streams = Map.empty,
     path_cache = {}, complete = 0, hostport = [], handshake_time = (- 1, - 1),
     cout = [] \<rparr>"

text \<open>The external collaborators: the URI parser, the inflater, the HTML link extractor,
  the return value of \<^verbatim>\<open>nghttp2_submit_request\<close> for a session and an array, the text the
  verbose callbacks print for a frame, and the constants \<^verbatim>\<open>NGHTTP2_VERSION\<close> and
  \<^verbatim>\<open>NGHTTP2_CLIENT_CONNECTION_HEADER\<close>.\<close>

record ('z, 'p) externals =
  parse_url :: url_parser
  inflate_new :: "int \<times> 'z"
  inflate :: "'z \<Rightarrow> string \<Rightarrow> int \<times> 'z \<times> string \<times> nat"
  html_new :: "string \<Rightarrow> 'p"
  parse_chunk :: "'p \<Rightarrow> string \<Rightarrow> int \<Rightarrow> 'p"
  get_links :: "'p \<Rightarrow> string list"
  clear_links :: "'p \<Rightarrow> 'p"
  submit_request_rv :: "nghttp2_session \<Rightarrow> string option list \<Rightarrow> int"
  print_frame :: "nghttp2_frame \<Rightarrow> string"
  version :: string
  connection_header :: string

definition all_requests_processed :: "('z, 'p) HttpClient \<Rightarrow> bool" where
  "all_requests_processed client = (complete client = length (reqvec client))"

text \<open>\<^verbatim>\<open>HttpClient::add_request\<close>: the return value and the client.\<close>

definition add_request :: "('z, 'p) externals \<Rightarrow> Config \<Rightarrow> ('z, 'p) HttpClient \<Rightarrow> string \<Rightarrow>
    bool \<Rightarrow> int \<Rightarrow> int \<Rightarrow> bool \<times> ('z, 'p) HttpClient" where
  "add_request ext config client s prd len lv =
     (let (rc, u) = parse_url ext s in
      if s \<in> path_cache client then (False, client)
      else (True,
            client \<lparr> path_cache := (if multiply config = 1 then insert s (path_cache client)
                                      else path_cache client),
                     reqvec := reqvec client @ [Request_new s u prd len lv] \<rparr>))"

text \<open>The admission loops of \<^verbatim>\<open>communicate\<close>: each queued request \<^verbatim>\<open>config.multiply\<close>
  times.\<close>

fun add_request_times :: "('z, 'p) externals \<Rightarrow> Config \<Rightarrow> nat \<Rightarrow> string \<Rightarrow> bool \<Rightarrow> int \<Rightarrow>
    ('z, 'p) HttpClient \<Rightarrow> ('z, 'p) HttpClient" where
  "add_request_times ext config 0 s prd len client = client"
| "add_request_times ext config (Suc k) s prd len client =
     add_request_times ext config k s prd len
       (snd (add_request ext config client s prd len 0))"

fun admit_requests :: "('z, 'p) externals \<Rightarrow> Config \<Rightarrow> (string \<times> bool \<times> int) list \<Rightarrow>
    ('z, 'p) HttpClient \<Rightarrow> ('z, 'p) HttpClient" where
  "admit_requests ext config [] client = client"
| "admit_requests ext config ((s, prd, len) # rs) client =
     admit_requests ext config rs
       (add_request_times ext config (nat (multiply config)) s prd len client)"

subsection \<open>Submitting a request\<close>

text \<open>The decimal text \<^verbatim>\<open>ss << req->data_length\<close> writes.\<close>

fun dec_of_nat :: "nat \<Rightarrow> string" where
  "dec_of_nat n =
     (if n < 10 then [char_of (48 + n)]
      else dec_of_nat (n div 10) @ [char_of (48 + n mod 10)])"

declare dec_of_nat.simps [simp del]

definition dec_of_int :: "int \<Rightarrow> string" where
  "dec_of_int i = (if i < 0 then CHR ''-'' # dec_of_nat (nat (- i)) else dec_of_nat (nat i))"

text \<open>The array \<^verbatim>\<open>nv\<close> is a list of its slots; a slot holds a string or the null pointer.
  A write outside the allocated slots is the error \<open>OutOfBounds\<close>.\<close>

definition nv_write :: "string option list \<Rightarrow> nat \<Rightarrow> string option \<Rightarrow>
    error + string option list" where
  "nv_write nv i v = (if i < length nv then Inr (nv[i := v]) else Inl OutOfBounds)"

definition POS_HOST :: nat where "POS_HOST = 3"
definition POS_ACCEPT :: nat where "POS_ACCEPT = 4"
definition POS_USERAGENT :: nat where "POS_USERAGENT = 6"

text \<open>The loop over the user's headers, from slot \<open>pos\<close> on.\<close>

fun header_loop :: "string option list \<Rightarrow> nat \<Rightarrow> (string \<times> string) list \<Rightarrow>
    error + (string option list \<times> nat)" where
  "header_loop nv pos [] = Inr (nv, pos)"
| "header_loop nv pos ((k, v) # hs) =
     (if strieq k ''accept'' then
        (case nv_write nv (POS_ACCEPT * 2 + 1) (Some (c_str v)) of
           Inl e \<Rightarrow> Inl e | Inr nv1 \<Rightarrow> header_loop nv1 pos hs)
      else if strieq k ''user-agent'' then
        (case nv_write nv (POS_USERAGENT * 2 + 1) (Some (c_str v)) of
           Inl e \<Rightarrow> Inl e | Inr nv1 \<Rightarrow> header_loop nv1 pos hs)
      else if strieq k ''host'' then
        (case nv_write nv (POS_HOST * 2 + 1) (Some (c_str v)) of
           Inl e \<Rightarrow> Inl e | Inr nv1 \<Rightarrow> header_loop nv1 pos hs)
      else
        (case nv_write nv pos (Some (c_str k)) of
           Inl e \<Rightarrow> Inl e
         | Inr nv1 \<Rightarrow>
             (case nv_write nv1 (pos + 1) (Some (c_str v)) of
                Inl e \<Rightarrow> Inl e | Inr nv2 \<Rightarrow> header_loop nv2 (pos + 2) hs)))"

definition static_nv :: "('z, 'p) externals \<Rightarrow> ('z, 'p) HttpClient \<Rightarrow> ('z, 'p) Request \<Rightarrow>
    string list" where
  "static_nv ext client req =
     ['':method'', (if data_prd req then ''POST'' else ''GET''),
      '':path'', c_str (make_reqpath req),
      '':scheme'', c_str (get_uri_field (uri req) (req_u req) UF_SCHEMA),
      '':host'', c_str (hostport client),
      ''accept'', ''*/*'',
      ''accept-encoding'', ''gzip, deflate'',
      ''user-agent'', ''nghttp2/'' @ version ext]"

text \<open>The part of \<^verbatim>\<open>submit_request\<close> that fills \<^verbatim>\<open>nv\<close>: the array as it is handed to
  \<^verbatim>\<open>nghttp2_submit_request\<close>. The array is allocated with
  \<^verbatim>\<open>total_entry_count + 1\<close> null slots.\<close>

definition build_nv :: "('z, 'p) externals \<Rightarrow> ('z, 'p) HttpClient \<Rightarrow> (string \<times> string) list \<Rightarrow>
    ('z, 'p) Request \<Rightarrow> error + string option list" where
  "build_nv ext client hdrs req =
     (let hardcoded_entry_count = length (static_nv ext client req);
          header_count = length hdrs;
          total_entry_count = hardcoded_entry_count + header_count * 2;
          total_entry_count = (if data_prd req then total_entry_count + 1
                               else total_entry_count);
          nv = replicate (total_entry_count + 1) None;
          nv = map Some (static_nv ext client req) @ drop hardcoded_entry_count nv;
          pos = hardcoded_entry_count
      in case (if data_prd req then
                 (case nv_write nv pos (Some ''content-length'') of
                    Inl e \<Rightarrow> Inl e
                  | Inr nv1 \<Rightarrow>
                      (case nv_write nv1 (pos + 1) (Some (dec_of_int (data_length req))) of
                         Inl e \<Rightarrow> Inl e | Inr nv2 \<Rightarrow> Inr (nv2, pos + 2)))
               else Inr (nv, pos)) of
           Inl e \<Rightarrow> Inl e
         | Inr (nv3, pos3) \<Rightarrow>
             (case header_loop nv3 pos3 hdrs of
                Inl e \<Rightarrow> Inl e
              | Inr (nv4, pos4) \<Rightarrow> nv_write nv4 pos4 None))"

text \<open>\<^verbatim>\<open>submit_request(client, headers, req)\<close>; \<open>i\<close> is the request.\<close>

definition submit_request :: "('z, 'p) externals \<Rightarrow> ('z, 'p) HttpClient \<Rightarrow>
    (string \<times> string) list \<Rightarrow> nat \<Rightarrow> error + ('z, 'p) HttpClient" where
  "submit_request ext client hdrs i =
     (if length (reqvec client) \<le> i then Inl DanglingPointer
      else
        case build_nv ext client hdrs (reqvec client ! i) of
          Inl e \<Rightarrow> Inl e
        | Inr nv \<Rightarrow>
            if submit_request_rv ext (session client) nv = 0
            then Inr (client \<lparr> session := (session client)
                        \<lparr> submitted := submitted (session client) @
                             [SubmitRequest nv (data_prd (reqvec client ! i)) i],
                          pending := pending (session client) @ [i] \<rparr> \<rparr>)
            else Inl AssertionFailed)"

text \<open>The header block the engine reads from \<^verbatim>\<open>nv\<close>: name and value pairs up to the first
  null pointer.\<close>

fun header_block :: "string option list \<Rightarrow> (string \<times> string) list" where
  "header_block (Some n # Some v # nv) = (n, v) # header_block nv"
| "header_block nv = []"

subsection \<open>Asset discovery\<close>

text \<open>The body of the loop over \<^verbatim>\<open>get_links()\<close> in \<^verbatim>\<open>update_html_parser\<close>, for the link
  \<open>raw_uri\<close> found in the response of request \<open>i\<close>.\<close>

definition same_origin :: "('z, 'p) externals \<Rightarrow> ('z, 'p) Request \<Rightarrow> string \<Rightarrow> bool" where
  "same_origin ext req s =
     (let (rc, u) = parse_url ext s in
      if rc \<noteq> 0 then False
      else if \<not> fieldeq s u (uri req) (req_u req) UF_SCHEMA then False
      else if \<not> fieldeq s u (uri req) (req_u req) UF_HOST then False
      else porteq s u (uri req) (req_u req))"

definition admit_link :: "('z, 'p) externals \<Rightarrow> Config \<Rightarrow> nat \<Rightarrow> ('z, 'p) HttpClient \<Rightarrow> string \<Rightarrow>
    error + ('z, 'p) HttpClient" where
  "admit_link ext config i client raw_uri =
     (let s = strip_fragment raw_uri; req = reqvec client ! i in
      if same_origin ext req s then
        (case add_request ext config client s False 0 (level req + 1) of
           (True, client1) \<Rightarrow>
             submit_request ext client1 (headers config) (length (reqvec client1) - 1)
         | (False, client1) \<Rightarrow> Inr client1)
      else Inr client)"

fun admit_links :: "('z, 'p) externals \<Rightarrow> Config \<Rightarrow> nat \<Rightarrow> ('z, 'p) HttpClient \<Rightarrow> string list \<Rightarrow>
    error + ('z, 'p) HttpClient" where
  "admit_links ext config i client [] = Inr client"
| "admit_links ext config i client (raw_uri # links) =
     (case admit_link ext config i client raw_uri of
        Inl e \<Rightarrow> Inl e
      | Inr client1 \<Rightarrow> admit_links ext config i client1 links)"

definition set_html_parser :: "nat \<Rightarrow> 'p option \<Rightarrow> ('z, 'p) HttpClient \<Rightarrow> ('z, 'p) HttpClient" where
  "set_html_parser i hp client =
     client \<lparr> reqvec := (reqvec client)[i := (reqvec client ! i) \<lparr> html_parser := hp \<rparr>] \<rparr>"

text \<open>\<^verbatim>\<open>update_html_parser(client, req, data, len, fin)\<close>; \<open>i\<close> is the request.\<close>

definition update_html_parser :: "('z, 'p) externals \<Rightarrow> Config \<Rightarrow> ('z, 'p) HttpClient \<Rightarrow> nat \<Rightarrow>
    string \<Rightarrow> int \<Rightarrow> error + ('z, 'p) HttpClient" where
  "update_html_parser ext config client i data fin =
     (if length (reqvec client) \<le> i then Inl DanglingPointer
      else
        case html_parser (reqvec client ! i) of
          None \<Rightarrow> Inr client
        | Some hp \<Rightarrow>
            let hp1 = parse_chunk ext hp data fin;
                client1 = set_html_parser i (Some hp1) client
            in case admit_links ext config i client1 (get_links ext hp1) of
                 Inl e \<Rightarrow> Inl e
               | Inr client2 \<Rightarrow> Inr (set_html_parser i (Some (clear_links ext hp1)) client2))"

subsection \<open>The callbacks of the framing engine\<close>

definition set_inflater :: "nat \<Rightarrow> 'z option \<Rightarrow> ('z, 'p) HttpClient \<Rightarrow> ('z, 'p) HttpClient" where
  "set_inflater i z client =
     client \<lparr> reqvec := (reqvec client)[i := (reqvec client ! i) \<lparr> inflater := z \<rparr>] \<rparr>"

definition submit_rst_stream :: "int \<Rightarrow> nghttp2_error_code \<Rightarrow> ('z, 'p) HttpClient \<Rightarrow>
    ('z, 'p) HttpClient" where
  "submit_rst_stream stream_id code client =
     client \<lparr> session := (session client)
       \<lparr> submitted := submitted (session client) @ [SubmitRstStream stream_id code] \<rparr> \<rparr>"

definition submit_goaway :: "nghttp2_error_code \<Rightarrow> ('z, 'p) HttpClient \<Rightarrow> ('z, 'p) HttpClient" where
  "submit_goaway code client =
     client \<lparr> session := (session client)
       \<lparr> submitted := submitted (session client) @ [SubmitGoaway code] \<rparr> \<rparr>"

definition write_cout :: "Config \<Rightarrow> string \<Rightarrow> ('z, 'p) HttpClient \<Rightarrow> ('z, 'p) HttpClient" where
  "write_cout config bytes client =
     (if \<not> null_out config then client \<lparr> cout := cout client @ bytes \<rparr> else client)"

text \<open>The loop \<^verbatim>\<open>while(len > 0)\<close> of \<^verbatim>\<open>on_data_chunk_recv_callback\<close> for a request with an
  inflater. \<open>inflate\<close> gives the return value, the inflater afterwards, the bytes written
  to \<^verbatim>\<open>out\<close> and the number \<^verbatim>\<open>tlen\<close> of input bytes consumed. The loop need not end; not
  returning is the value \<open>None\<close>.\<close>

partial_function (option) inflate_loop :: "('z, 'p) externals \<Rightarrow> Config \<Rightarrow> int \<Rightarrow> nat \<Rightarrow>
    ('z, 'p) HttpClient \<Rightarrow> string \<Rightarrow> (error + ('z, 'p) HttpClient) option" where
  "inflate_loop ext config stream_id i client data =
     (if data = [] then Some (Inr client)
      else
        case inflater (reqvec client ! i) of
          None \<Rightarrow> Some (Inl NullPointer)
        | Some z \<Rightarrow>
            (case inflate ext z data of
               (rv, z1, out, tlen) \<Rightarrow>
                 let client1 = set_inflater i (Some z1) client in
                 if rv \<noteq> 0
                 then Some (Inr (submit_rst_stream stream_id NGHTTP2_INTERNAL_ERROR client1))
                 else
                   (case update_html_parser ext config (write_cout config out client1) i out 0 of
                      Inl e \<Rightarrow> Some (Inl e)
                    | Inr client2 \<Rightarrow>
                        inflate_loop ext config stream_id i client2 (drop tlen data))))"

definition on_data_chunk_recv_callback :: "('z, 'p) externals \<Rightarrow> Config \<Rightarrow>
    ('z, 'p) HttpClient \<Rightarrow> int \<Rightarrow> string \<Rightarrow> (error + ('z, 'p) HttpClient) option" where
  "on_data_chunk_recv_callback ext config client stream_id data =
     (case streams client stream_id of
        None \<Rightarrow> Some (Inr client)
      | Some i \<Rightarrow>
          if length (reqvec client) \<le> i then Some (Inl DanglingPointer)
          else if inflater (reqvec client ! i) \<noteq> None
          then inflate_loop ext config stream_id i client data
          else Some (update_html_parser ext config (write_cout config data client) i data 0))"

definition set_stat :: "nat \<Rightarrow> (RequestStat \<Rightarrow> RequestStat) \<Rightarrow> ('z, 'p) HttpClient \<Rightarrow>
    ('z, 'p) HttpClient" where
  "set_stat i f client =
     client \<lparr> reqvec := (reqvec client)[i := (reqvec client ! i)
                 \<lparr> stat := f (stat (reqvec client ! i)) \<rparr>] \<rparr>"

text \<open>\<^verbatim>\<open>check_stream_id\<close>: the map entry is written before the request is dereferenced.\<close>

definition check_stream_id :: "timeval \<Rightarrow> ('z, 'p) HttpClient \<Rightarrow> nghttp2_frame \<Rightarrow>
    error + ('z, 'p) HttpClient" where
  "check_stream_id now client frame =
     (case stream_user_data (session client) (hd_stream_id frame) of
        None \<Rightarrow> Inl NullPointer
      | Some i \<Rightarrow>
          if length (reqvec client) \<le> i then Inl DanglingPointer
          else Inr (set_stat i (\<lambda>st. st \<lparr> on_syn_stream_time := now \<rparr>)
                      (client \<lparr> streams := (streams client)(hd_stream_id frame \<mapsto> i) \<rparr>)))"

definition on_frame_send_callback2 :: "('z, 'p) externals \<Rightarrow> Config \<Rightarrow> timeval \<Rightarrow>
    ('z, 'p) HttpClient \<Rightarrow> nghttp2_frame \<Rightarrow> error + ('z, 'p) HttpClient" where
  "on_frame_send_callback2 ext config now client frame =
     (case (if hd_type frame = NGHTTP2_HEADERS \<and> headers_cat frame = NGHTTP2_HCAT_START_STREAM
            then check_stream_id now client frame else Inr client) of
        Inl e \<Rightarrow> Inl e
      | Inr client1 \<Rightarrow>
          Inr (if verbose config then client1 \<lparr> cout := cout client1 @ print_frame ext frame \<rparr>
               else client1))"

text \<open>The loop over the header block in \<^verbatim>\<open>check_response_header\<close>: the flag \<^verbatim>\<open>gzip\<close> and
  the status string.\<close>

fun scan_headers :: "bool \<Rightarrow> string \<Rightarrow> (string \<times> string) list \<Rightarrow> bool \<times> string" where
  "scan_headers gzip st [] = (gzip, st)"
| "scan_headers gzip st ((name, val) # nva) =
     (if strieq_buf ''content-encoding'' name
      then scan_headers (if strieq_buf ''gzip'' val then True else strieq_buf ''deflate'' val)
             st nva
      else if strieq_buf '':status'' name then scan_headers gzip val nva
      else scan_headers gzip st nva)"

definition check_response_header :: "('z, 'p) externals \<Rightarrow> Config \<Rightarrow> ('z, 'p) HttpClient \<Rightarrow>
    nghttp2_frame \<Rightarrow> error + ('z, 'p) HttpClient" where
  "check_response_header ext config client frame =
     (if hd_type frame \<noteq> NGHTTP2_HEADERS then Inr client
      else if headers_cat frame \<noteq> NGHTTP2_HCAT_REPLY then Inr client
      else
        case stream_user_data (session client) (hd_stream_id frame) of
          None \<Rightarrow> Inr client
        | Some i \<Rightarrow>
            if length (reqvec client) \<le> i then Inl DanglingPointer
            else
              let req = reqvec client ! i;
                  (gzip, st) = scan_headers False (status req) (headers_nva frame);
                  req = req \<lparr> status := st \<rparr>
              in case (if gzip \<and> inflater req = None
                       then (if fst (inflate_new ext) = 0
                             then Inr (req \<lparr> inflater := Some (snd (inflate_new ext)) \<rparr>)
                             else Inl AssertionFailed)
                       else Inr req) of
                   Inl e \<Rightarrow> Inl e
                 | Inr req1 \<Rightarrow>
                     let req2 = (if get_assets config \<and> level req1 = 0 \<and> html_parser req1 = None
                                 then req1 \<lparr> html_parser := Some (html_new ext (uri req1)) \<rparr>
                                 else req1)
                     in Inr (client \<lparr> reqvec := (reqvec client)[i := req2] \<rparr>))"

definition on_frame_recv_callback2 :: "('z, 'p) externals \<Rightarrow> Config \<Rightarrow> timeval \<Rightarrow>
    ('z, 'p) HttpClient \<Rightarrow> nghttp2_frame \<Rightarrow> error + ('z, 'p) HttpClient" where
  "on_frame_recv_callback2 ext config now client frame =
     (case (if hd_type frame = NGHTTP2_HEADERS \<and> headers_cat frame = NGHTTP2_HCAT_REPLY
            then (case stream_user_data (session client) (hd_stream_id frame) of
                    None \<Rightarrow> Inl AssertionFailed
                  | Some i \<Rightarrow>
                      if length (reqvec client) \<le> i then Inl DanglingPointer
                      else Inr (set_stat i (\<lambda>st. st \<lparr> on_syn_reply_time := now \<rparr>) client))
            else Inr client) of
        Inl e \<Rightarrow> Inl e
      | Inr client1 \<Rightarrow>
          (case check_response_header ext config client1 frame of
             Inl e \<Rightarrow> Inl e
           | Inr client2 \<Rightarrow>
               Inr (if verbose config
                    then client2 \<lparr> cout := cout client2 @ print_frame ext frame \<rparr>
                    else client2)))"

definition on_stream_close_callback :: "('z, 'p) externals \<Rightarrow> Config \<Rightarrow> timeval \<Rightarrow>
    ('z, 'p) HttpClient \<Rightarrow> int \<Rightarrow> nghttp2_error_code \<Rightarrow> error + ('z, 'p) HttpClient" where
  "on_stream_close_callback ext config now client stream_id error_code =
     (case streams client stream_id of
        None \<Rightarrow> Inr client
      | Some i \<Rightarrow>
          (case update_html_parser ext config client i [] 1 of
             Inl e \<Rightarrow> Inl e
           | Inr client1 \<Rightarrow>
               let client2 = set_stat i (\<lambda>st. st \<lparr> on_complete_time := now \<rparr>) client1;
                   client3 = client2 \<lparr> complete := complete client2 + 1 \<rparr>
               in Inr (if all_requests_processed client3
                       then submit_goaway NGHTTP2_NO_ERROR client3 else client3)))"

subsection \<open>Connecting, and the run of a session\<close>

text \<open>\<^verbatim>\<open>HttpClient::update_hostport\<close>.\<close>

definition update_hostport :: "('z, 'p) HttpClient \<Rightarrow> ('z, 'p) HttpClient" where
  "update_hostport client =
     (case reqvec client of
        [] \<Rightarrow> client
      | req # _ \<Rightarrow>
          let h = get_uri_field (uri req) (req_u req) UF_HOST;
              ss = (if is_ipv6_literal_addr req then ''['' @ h @ '']'' else h);
              ss = (if has_uri_field (req_u req) UF_PORT
                    then (if port (req_u req) \<noteq> get_default_port (uri req) (req_u req)
                          then ss @ '':'' @ dec_of_nat (unat (port (req_u req))) else ss)
                    else ss)
          in client \<lparr> hostport := ss \<rparr>)"

text \<open>The loop \<^verbatim>\<open>for(auto& req : reqvec)\<close> of \<^verbatim>\<open>on_connect\<close>.\<close>

fun submit_requests :: "('z, 'p) externals \<Rightarrow> (string \<times> string) list \<Rightarrow> ('z, 'p) HttpClient \<Rightarrow>
    nat list \<Rightarrow> error + ('z, 'p) HttpClient" where
  "submit_requests ext hdrs client [] = Inr client"
| "submit_requests ext hdrs client (i # rest) =
     (case submit_request ext client hdrs i of
        Inl e \<Rightarrow> Inl e
      | Inr client1 \<Rightarrow> submit_requests ext hdrs client1 rest)"

text \<open>\<^verbatim>\<open>HttpClient::on_connect\<close> up to its last statement \<^verbatim>\<open>return on_write()\<close>, which hands
  control to the engine; 0 stands for reaching it. \<open>new_rv\<close> and \<open>settings_rv\<close> are the
  return values of \<^verbatim>\<open>nghttp2_session_client_new\<close> and \<^verbatim>\<open>nghttp2_submit_settings\<close>. A settings
  submission carries the values of its entries.\<close>

definition on_connect :: "('z, 'p) externals \<Rightarrow> Config \<Rightarrow> timeval \<Rightarrow> int \<Rightarrow> int \<Rightarrow> bufferevent \<Rightarrow>
    ('z, 'p) HttpClient \<Rightarrow> error + (int \<times> bufferevent \<times> ('z, 'p) HttpClient)" where
  "on_connect ext config now new_rv settings_rv bev client =
     (let client1 = client \<lparr> handshake_time := now \<rparr> in
      if new_rv \<noteq> 0 then Inr (- 1, bev, client1)
      else
        let client2 = client1 \<lparr> session := nghttp2_session_client_new \<rparr>;
            bev1 = bev \<lparr> output_buf := output_buf bev @ connection_header ext \<rparr>;
            iv = (if window_bits config \<noteq> - 1 then [2 ^ nat (window_bits config)] else [])
        in if settings_rv \<noteq> 0 then Inr (- 1, bev1, client2)
           else
             case submit_requests ext (headers config)
                    (client2 \<lparr> session := (session client2)
                       \<lparr> submitted := submitted (session client2) @ [SubmitSettings iv] \<rparr> \<rparr>)
                    [0..<length (reqvec client2)] of
               Inl e \<Rightarrow> Inl e
             | Inr client3 \<Rightarrow> Inr (0, bev1, client3))"

text \<open>The error codes of the GOAWAY frames among the submissions.\<close>

definition goaways :: "submission list \<Rightarrow> nghttp2_error_code list" where
  "goaways subs = concat (map (\<lambda>s. case s of SubmitGoaway code \<Rightarrow> [code] | _ \<Rightarrow> []) subs)"

text \<open>The engine opens a stream for a pending request: the request leaves the pending
  ones and becomes the user data of the stream.\<close>

definition open_stream :: "int \<Rightarrow> nat \<Rightarrow> ('z, 'p) HttpClient \<Rightarrow> ('z, 'p) HttpClient" where
  "open_stream stream_id r client =
     client \<lparr> session := (session client)
       \<lparr> pending := remove1 r (pending (session client)),
         stream_user_data := (stream_user_data (session client))(stream_id \<mapsto> r) \<rparr> \<rparr>"

text \<open>
  The states of a session, with the set of the streams closed so far. A session starts
  when \<^verbatim>\<open>communicate\<close> has admitted its requests and \<^verbatim>\<open>on_connect\<close> has submitted them;
  from then on the engine calls the callbacks. What is taken from the engine:
  it opens one stream per submitted request, under a stream identifier that was never
  used; it delivers data only on streams that are not closed; it closes a stream once.
  A callback that fails an assertion ends the run.
\<close>

inductive session_run :: "('z, 'p) externals \<Rightarrow> Config \<Rightarrow> ('z, 'p) HttpClient \<Rightarrow> int set \<Rightarrow> bool"
  for ext :: "('z, 'p) externals" and config :: Config where
  connected:
    "on_connect ext config now 0 0 bev
       (update_hostport (admit_requests ext config rs HttpClient_new)) = Inr (0, bev', client)
     \<Longrightarrow> session_run ext config client {}"
| stream_opened:
    "session_run ext config client closed \<Longrightarrow>
     r \<in> set (pending (session client)) \<Longrightarrow>
     stream_id \<notin> dom (stream_user_data (session client)) \<Longrightarrow>
     stream_id \<notin> closed \<Longrightarrow>
     hd_type frame = NGHTTP2_HEADERS \<Longrightarrow>
     headers_cat frame = NGHTTP2_HCAT_START_STREAM \<Longrightarrow>
     hd_stream_id frame = stream_id \<Longrightarrow>
     on_frame_send_callback2 ext config now (open_stream stream_id r client) frame = Inr client'
     \<Longrightarrow> session_run ext config client' closed"
| frame_sent:
    "session_run ext config client closed \<Longrightarrow>
     hd_type frame \<noteq> NGHTTP2_HEADERS \<or> headers_cat frame \<noteq> NGHTTP2_HCAT_START_STREAM \<Longrightarrow>
     on_frame_send_callback2 ext config now client frame = Inr client'
     \<Longrightarrow> session_run ext config client' closed"
| frame_received:
    "session_run ext config client closed \<Longrightarrow>
     on_frame_recv_callback2 ext config now client frame = Inr client'
     \<Longrightarrow> session_run ext config client' closed"
| data_chunk:
    "session_run ext config client closed \<Longrightarrow>
     stream_id \<notin> closed \<Longrightarrow>
     on_data_chunk_recv_callback ext config client stream_id data = Some (Inr client')
     \<Longrightarrow> session_run ext config client' closed"
| stream_closed:
    "session_run ext config client closed \<Longrightarrow>
     stream_id \<notin> closed \<Longrightarrow>
     on_stream_close_callback ext config now client stream_id code = Inr client'
     \<Longrightarrow> session_run ext config client' (insert stream_id closed)"

text \<open>What changes while links are admitted: requests are appended and submitted, and
  nothing else that the completion of the session depends on.\<close>

definition grows :: "('z, 'p) HttpClient \<Rightarrow> ('z, 'p) HttpClient \<Rightarrow> bool" where
  "grows c c' =
     (streams c' = streams c \<and> complete c' = complete c \<and>
      stream_user_data (session c') = stream_user_data (session c) \<and>
      length (reqvec c) \<le> length (reqvec c') \<and>
      goaways (submitted (session c')) = goaways (submitted (session c)) \<and>
      pending (session c') = pending (session c) @ [length (reqvec c)..<length (reqvec c')])"

text \<open>The invariant of a session.\<close>

definition session_inv :: "('z, 'p) HttpClient \<Rightarrow> int set \<Rightarrow> bool" where
  "session_inv c closed =
     (finite (dom (streams c)) \<and>
      complete c = card (dom (streams c) \<inter> closed) \<and>
      (\<forall>sid i. streams c sid = Some i \<longrightarrow> stream_user_data (session c) sid = Some i) \<and>
      (\<forall>sid sid' i. stream_user_data (session c) sid = Some i \<longrightarrow>
         stream_user_data (session c) sid' = Some i \<longrightarrow> sid = sid') \<and>
      (\<forall>sid i. stream_user_data (session c) sid = Some i \<longrightarrow> i < length (reqvec c)) \<and>
      distinct (pending (session c)) \<and>
      (\<forall>i \<in> set (pending (session c)). i < length (reqvec c) \<and>
         (\<forall>sid. stream_user_data (session c) sid \<noteq> Some i)) \<and>
      goaways (submitted (session c)) =
        (if complete c = length (reqvec c) \<and> reqvec c \<noteq> [] then [NGHTTP2_NO_ERROR] else []))"

subsection \<open>The send adapter\<close>

text \<open>The sentinels of \<^verbatim>\<open>nghttp2.h\<close>.\<close>

definition NGHTTP2_ERR_WOULDBLOCK :: int where
  "NGHTTP2_ERR_WOULDBLOCK = - 504"

definition NGHTTP2_ERR_CALLBACK_FAILURE :: int where
  "NGHTTP2_ERR_CALLBACK_FAILURE = - 902"

text \<open>Modelled from the spec: \<^verbatim>\<open>evbuffer_add\<close> belongs to the event library. The spec's
  \<^verbatim>\<open>enqueue(bytes)\<close> appends to the outgoing buffer; the call returns 0 then, or - 1 and
  leaves the buffer as it was when the library fails (\<open>fails\<close>).\<close>

definition evbuffer_add :: "bool \<Rightarrow> string \<Rightarrow> string \<Rightarrow> int \<times> string" where
  "evbuffer_add fails buf data = (if fails then (- 1, buf) else (0, buf @ data))"

text \<open>The conversion of a \<^verbatim>\<open>size_t\<close> to the 32-bit \<^verbatim>\<open>int\<close> a function returns.\<close>

definition int_of_size_t :: "nat \<Rightarrow> int" where
  "int_of_size_t n = sint (word_of_nat n :: 32 word)"

text \<open>\<^verbatim>\<open>HttpClient::sendcb\<close>, on the client's \<^verbatim>\<open>bev\<close>: the return value and the
  transport.\<close>

definition sendcb :: "Config \<Rightarrow> bool \<Rightarrow> bufferevent \<Rightarrow> string \<Rightarrow> int \<times> bufferevent" where
  "sendcb config fails bev data =
     (if length (output_buf bev) > output_upper_thres config
      then (NGHTTP2_ERR_WOULDBLOCK, bev)
      else
        let (rv, out) = evbuffer_add fails (output_buf bev) data in
        if rv = - 1 then (NGHTTP2_ERR_CALLBACK_FAILURE, bev \<lparr> output_buf := out \<rparr>)
        else (int_of_size_t (length data), bev \<lparr> output_buf := out \<rparr>))"

subsection \<open>Sample collaborators and inputs\<close>

text \<open>A set of collaborators to run the client on: the parser above, an inflater that
  passes its input through, a link extractor that reports every chunk as one link, and an
  engine that accepts every request.\<close>

definition sample_ext :: "(unit, string list) externals" where
  "sample_ext = \<lparr> parse_url = parse_two_paths, inflate_new = (0, ()),
     inflate = (\<lambda>z d. (0, z, d, length d)), html_new = (\<lambda>s. []),
     parse_chunk = (\<lambda>p d fin. p @ [d]), get_links = (\<lambda>p. p), clear_links = (\<lambda>p. []),
     submit_request_rv = (\<lambda>s nv. 0), print_frame = (\<lambda>f. []), version = ''0.1.0'',
     connection_header = ''PRI * HTTP/2.0'' \<rparr>"

text \<open>A client holding the one request \<^verbatim>\<open>https://h/a\<close>, as a GET and as a POST of three
  bytes.\<close>

definition get_client :: "(unit, string list) HttpClient" where
  "get_client = HttpClient_new \<lparr> reqvec := [Request_new ''https://h/a'' url_h False 0 0],
     path_cache := {''https://h/a''}, hostport := ''h'' \<rparr>"

definition post_client :: "(unit, string list) HttpClient" where
  "post_client = HttpClient_new \<lparr> reqvec := [Request_new ''https://h/a'' url_h True 3 0],
     path_cache := {''https://h/a''}, hostport := ''h'' \<rparr>"

text \<open>The same client once the engine has opened stream 1 for the request.\<close>

definition bound_client :: "(unit, string list) HttpClient" where
  "bound_client = get_client \<lparr> session := nghttp2_session_client_new
       \<lparr> stream_user_data := [1 \<mapsto> 0] \<rparr>,
     streams := [1 \<mapsto> 0] \<rparr>"

definition reply_frame :: "int \<Rightarrow> (string \<times> string) list \<Rightarrow> nghttp2_frame" where
  "reply_frame stream_id nva = \<lparr> hd_type = NGHTTP2_HEADERS, hd_stream_id = stream_id,
     headers_cat = NGHTTP2_HCAT_REPLY, headers_nva = nva \<rparr>"








subsection \<open>Statements the properties refer to\<close>

text \<open>The \<^verbatim>\<open>content-encoding\<close> headers of a block.\<close>

definition content_encodings :: "(string \<times> string) list \<Rightarrow> (string \<times> string) list" where
  "content_encodings nva = filter (\<lambda>nv. strieq_buf ''content-encoding'' (fst nv)) nva"

definition is_gzip_or_deflate :: "string \<Rightarrow> bool" where
  "is_gzip_or_deflate v = (if strieq_buf ''gzip'' v then True else strieq_buf ''deflate'' v)"

text \<open>Whether the last \<^verbatim>\<open>content-encoding\<close> header of a block names gzip or deflate.\<close>

definition last_encoding_compressed :: "(string \<times> string) list \<Rightarrow> bool" where
  "last_encoding_compressed nva =
     (case rev (content_encodings nva) of [] \<Rightarrow> False | nv # _ \<Rightarrow> is_gzip_or_deflate (snd nv))"

text \<open>The registry of a session that removes duplicates: the seen URIs are those of the
  requests, each once.\<close>

definition registry_ok :: "('z, 'p) HttpClient \<Rightarrow> bool" where
  "registry_ok client =
     (path_cache client = set (map uri (reqvec client)) \<and> distinct (map uri (reqvec client)))"

definition requests_for :: "string \<Rightarrow> ('z, 'p) HttpClient \<Rightarrow> nat" where
  "requests_for s client = length (filter (\<lambda>r. uri r = s) (reqvec client))"





text \<open>The user headers that replace a default, the value a default ends with (that of the
  last user header with the name, in iteration order), the user headers that are appended,
  and the header block described by the header order of the requests.\<close>

definition is_override :: "string \<Rightarrow> bool" where
  "is_override k = (strieq k ''accept'' \<or> strieq k ''user-agent'' \<or> strieq k ''host'')"

definition user_value :: "string \<Rightarrow> (string \<times> string) list \<Rightarrow> string \<Rightarrow> string" where
  "user_value name hdrs dflt =
     (case rev (filter (\<lambda>h. strieq (fst h) name) hdrs) of
        [] \<Rightarrow> dflt
      | h # _ \<Rightarrow> c_str (snd h))"

definition appended_headers :: "(string \<times> string) list \<Rightarrow> (string \<times> string) list" where
  "appended_headers hdrs =
     map (\<lambda>h. (c_str (fst h), c_str (snd h))) (filter (\<lambda>h. \<not> is_override (fst h)) hdrs)"

definition expected_block :: "('z, 'p) externals \<Rightarrow> ('z, 'p) HttpClient \<Rightarrow>
    (string \<times> string) list \<Rightarrow> ('z, 'p) Request \<Rightarrow> (string \<times> string) list" where
  "expected_block ext client hdrs req =
     [('':method'', (if data_prd req then ''POST'' else ''GET'')),
      ('':path'', c_str (make_reqpath req)),
      ('':scheme'', c_str (get_uri_field (uri req) (req_u req) UF_SCHEMA)),
      ('':host'', user_value ''host'' hdrs (c_str (hostport client))),
      (''accept'', user_value ''accept'' hdrs ''*/*''),
      (''accept-encoding'', ''gzip, deflate''),
      (''user-agent'', user_value ''user-agent'' hdrs (''nghttp2/'' @ version ext))] @
     (if data_prd req then [(''content-length'', dec_of_int (data_length req))] else []) @
     appended_headers hdrs"

text \<open>A slot of the array after the overrides of a list of headers, and a header block laid
  out as slots.\<close>

definition ov :: "string \<Rightarrow> (string \<times> string) list \<Rightarrow> string option \<Rightarrow> string option" where
  "ov name hdrs a =
     (case rev (filter (\<lambda>h. strieq (fst h) name) hdrs) of
        [] \<Rightarrow> a
      | h # _ \<Rightarrow> Some (c_str (snd h)))"

definition flat :: "(string \<times> string) list \<Rightarrow> string option list" where
  "flat ps = concat (map (\<lambda>p. [Some (fst p), Some (snd p)]) ps)"


section \<open>Properties\<close>

subsection \<open>Sessions of the command line\<close>

text \<open>
  C1. Two consecutive URIs with the same host and the same effective port are to share
  one session. Run on \<^verbatim>\<open>https://h/a https://h/b\<close> (same host, both on the default port
  443), \<^verbatim>\<open>run\<close> calls \<^verbatim>\<open>communicate\<close> twice, once per URI: the loop compares the raw
  \<^verbatim>\<open>u.port\<close>, which is 0 when the URI names no port, with the defaulted \<^verbatim>\<open>prev_port\<close>.
\<close>

theorem run_splits_same_origin:
  "run parse_two_paths (\<lambda>h p rs. 0) NoDataFile [''https://h/a'', ''https://h/b''] =
     (0, [(''h'', 443, [(''https://h/a'', False, None)]),
          (''h'', 443, [(''https://h/b'', False, None)])])"
  by (simp add: run_def run_step_def run_init_def call_communicate_def parse_two_paths_def url_h_def
      strip_fragment_def NUL_def has_uri_field_def fieldeq_str_def c_str_def field_bytes_def
      get_default_port_def get_uri_field_def Let_def)

subsection \<open>The timeout option\<close>

text \<open>For a number of seconds whose product with 1000 fits the \<^verbatim>\<open>int\<close>, the timeout put on
  the transport is a thousand times as many seconds; a larger number wraps around.\<close>

lemma timeout_installed_in_seconds:
  assumes "- 2147483 \<le> k" and "k \<le> 2147483"
  shows "initiate_connection (main_opt_t (word_of_int k) config) True 0 =
     (0, Some (bufferevent_new \<lparr> ev_read_enabled := True,
                 read_timeout := Some (k * 1000, 0), write_timeout := Some (k * 1000, 0) \<rparr>))"
proof -
  have "(word_of_int k :: 32 word) * 1000 = word_of_int (k * 1000)" by simp
  then have s: "sint ((word_of_int k :: 32 word) * 1000) = k * 1000"
    using assms by (simp only: signed_of_int) (simp add: signed_take_bit_int_eq_self)
  have "(k * 1000) mod 1000 = 0" by simp
  moreover have "(- 1 :: int) mod 1000 = 999" by simp
  ultimately have "k * 1000 \<noteq> - 1" by (metis zero_neq_numeral)
  then show ?thesis by (simp add: initiate_connection_def main_opt_t_def s)
qed

lemma timeout_3000000_wraps:
  "timeout (main_opt_t 3000000 Config_init) = - 1294967296"
  by (simp add: main_opt_t_def)

text \<open>
  C2. With \<^verbatim>\<open>-t 5\<close> the timeout put on the transport is to be 5 seconds. The option stores
  5000 (milliseconds), and \<^verbatim>\<open>initiate_connection\<close> puts that number in the seconds field
  of the \<^verbatim>\<open>timeval\<close>: the read and write timeouts are 5000 seconds.
\<close>

theorem timeout_5_installs_5000_seconds:
  "initiate_connection (main_opt_t 5 Config_init) True 0 =
     (0, Some \<lparr> ev_read_enabled = True, read_timeout = Some (5000, 0),
                write_timeout = Some (5000, 0), output_buf = '''' \<rparr>)"
  by (simp add: initiate_connection_def main_opt_t_def Config_init_def bufferevent_new_def)

subsection \<open>Response headers and the content decoder\<close>

lemma scan_headers_fst:
  "fst (scan_headers g st nva) =
     (case rev (content_encodings nva) of [] \<Rightarrow> g | nv # _ \<Rightarrow> is_gzip_or_deflate (snd nv))"
proof (induction nva arbitrary: g st)
  case Nil
  then show ?case by (simp add: content_encodings_def)
next
  case (Cons a nva)
  obtain n v where a: "a = (n, v)" by (cases a)
  show ?case
    using Cons[of "is_gzip_or_deflate v" st] Cons[of g v] Cons[of g st]
    by (auto simp: a content_encodings_def is_gzip_or_deflate_def split: list.splits)
qed

text \<open>
  C3, as the code has it. For a reply HEADERS frame on a stream with a request, when
  creating an inflater succeeds, \<^verbatim>\<open>check_response_header\<close> returns, and afterwards the
  request has a content decoder exactly when it had one before or the \<^emph>\<open>last\<close>
  \<^verbatim>\<open>content-encoding\<close> header of the block has the value \<^verbatim>\<open>gzip\<close> or \<^verbatim>\<open>deflate\<close>
  (compared without case): every \<^verbatim>\<open>content-encoding\<close> header overwrites the decision of
  the ones before it.
\<close>

theorem content_decoder_follows_last_encoding:
  assumes "hd_type frame = NGHTTP2_HEADERS" and "headers_cat frame = NGHTTP2_HCAT_REPLY"
    and "stream_user_data (session client) (hd_stream_id frame) = Some i"
    and "i < length (reqvec client)" and "fst (inflate_new ext) = 0"
  shows "\<exists>client'. check_response_header ext config client frame = Inr client' \<and>
           length (reqvec client') = length (reqvec client) \<and>
           (inflater (reqvec client' ! i) \<noteq> None) =
             (if inflater (reqvec client ! i) \<noteq> None then True
              else last_encoding_compressed (headers_nva frame))"
proof -
  obtain g st where
    sc: "scan_headers False (status (reqvec client ! i)) (headers_nva frame) = (g, st)"
    by (cases "scan_headers False (status (reqvec client ! i)) (headers_nva frame)")
  have g: "g = last_encoding_compressed (headers_nva frame)"
    using scan_headers_fst[of False "status (reqvec client ! i)" "headers_nva frame"] sc
    by (simp add: last_encoding_compressed_def)
  show ?thesis
    using assms sc g
    by (auto simp: check_response_header_def Let_def)
qed

text \<open>A block whose first \<^verbatim>\<open>content-encoding\<close> header is \<^verbatim>\<open>identity\<close> and whose second is
  \<^verbatim>\<open>GZIP\<close>: the decoder is created.\<close>

theorem content_decoder_follows_last_encoding_witness:
  "\<exists>client'. check_response_header sample_ext Config_init bound_client
       (reply_frame 1 [(''content-encoding'', ''identity''), (''Content-Encoding'', ''GZIP'')]) =
         Inr client' \<and>
     length (reqvec client') = length (reqvec bound_client) \<and>
     (inflater (reqvec client' ! 0) \<noteq> None) = True"
proof -
  let ?f = "reply_frame 1 [(''content-encoding'', ''identity''), (''Content-Encoding'', ''GZIP'')]"
  have h1: "hd_type ?f = NGHTTP2_HEADERS" by (simp add: reply_frame_def)
  have h2: "headers_cat ?f = NGHTTP2_HCAT_REPLY" by (simp add: reply_frame_def)
  have h3: "stream_user_data (session bound_client) (hd_stream_id ?f) = Some 0"
    by (simp add: reply_frame_def bound_client_def)
  have h4: "0 < length (reqvec bound_client)" by (simp add: bound_client_def get_client_def)
  have h5: "fst (inflate_new sample_ext) = 0" by (simp add: sample_ext_def)
  have l: "last_encoding_compressed (headers_nva ?f)"
    by (simp add: reply_frame_def last_encoding_compressed_def content_encodings_def
        strieq_buf_def is_gzip_or_deflate_def c_str_def NUL_def lowcase_def)
  have n: "inflater (reqvec bound_client ! 0) = None"
    by (simp add: bound_client_def get_client_def Request_new_def)
  show ?thesis
    using content_decoder_follows_last_encoding[OF h1 h2 h3 h4 h5, of Config_init] l n by simp
qed

text \<open>A block whose first \<^verbatim>\<open>content-encoding\<close> header is \<^verbatim>\<open>gzip\<close> and whose second is
  \<^verbatim>\<open>identity\<close>: the request has no decoder before, and the callback leaves the client as
  it was, without a decoder.\<close>

theorem first_gzip_header_is_overridden:
  "is_gzip_or_deflate
     (snd (hd [(''content-encoding'', ''gzip''), (''content-encoding'', ''identity'')])) \<and>
   inflater (reqvec bound_client ! 0) = None \<and>
   check_response_header sample_ext Config_init bound_client
     (reply_frame 1 [(''content-encoding'', ''gzip''), (''content-encoding'', ''identity'')]) =
     Inr bound_client"
  by (simp add: check_response_header_def reply_frame_def bound_client_def get_client_def
      Request_new_def HttpClient_new_def nghttp2_session_client_new_def Config_init_def
      strieq_buf_def is_gzip_or_deflate_def c_str_def NUL_def lowcase_def sample_ext_def)

subsection \<open>Events on streams without a request\<close>

text \<open>A data chunk or a close on a stream that is not in \<^verbatim>\<open>streams\<close> changes nothing, and
  \<^verbatim>\<open>check_response_header\<close> returns at once when the stream has no user data.\<close>

lemma data_chunk_unbound:
  "streams client stream_id = None \<Longrightarrow>
   on_data_chunk_recv_callback ext config client stream_id data = Some (Inr client)"
  by (simp add: on_data_chunk_recv_callback_def)

lemma stream_close_unbound:
  "streams client stream_id = None \<Longrightarrow>
   on_stream_close_callback ext config now client stream_id code = Inr client"
  by (simp add: on_stream_close_callback_def)

lemma check_response_header_unbound:
  "stream_user_data (session client) (hd_stream_id frame) = None \<Longrightarrow>
   check_response_header ext config client frame = Inr client"
  by (simp add: check_response_header_def)

text \<open>The callback for received frames asserts the user data before it gets there.\<close>

lemma reply_headers_unbound_asserts:
  "hd_type frame = NGHTTP2_HEADERS \<Longrightarrow> headers_cat frame = NGHTTP2_HCAT_REPLY \<Longrightarrow>
   stream_user_data (session client) (hd_stream_id frame) = None \<Longrightarrow>
   on_frame_recv_callback2 ext config now client frame = Inl AssertionFailed"
  by (simp add: on_frame_recv_callback2_def)

text \<open>
  C4. An event on a stream without a request is to be tolerated silently. A reply
  HEADERS frame on stream 2, which has no user data, fails the \<^verbatim>\<open>assert(req)\<close> of
  \<^verbatim>\<open>on_frame_recv_callback2\<close>.
\<close>

theorem reply_headers_without_request_aborts:
  "on_frame_recv_callback2 sample_ext Config_init (0, 0) get_client (reply_frame 2 []) =
     Inl AssertionFailed"
  by (simp add: on_frame_recv_callback2_def reply_frame_def get_client_def HttpClient_new_def
      nghttp2_session_client_new_def)

subsection \<open>Back-pressure in the send adapter\<close>

text \<open>
  C6, as the code has it. When the outgoing buffer holds more than
  \<^verbatim>\<open>output_upper_thres\<close> bytes (1048576 by default), \<^verbatim>\<open>sendcb\<close> returns the would-block
  sentinel and leaves the buffer as it is. Otherwise it returns the callback-failure
  sentinel when the append fails, and when the append succeeds it has appended the
  \<open>N\<close> bytes and returns \<open>N\<close>, for \<open>N\<close> below \<open>2 ^ 31\<close>: the return type is a 32-bit
  \<^verbatim>\<open>int\<close>.
\<close>

theorem sendcb_cases:
  "(output_upper_thres config < length (output_buf bev) \<longrightarrow>
      sendcb config fails bev data = (NGHTTP2_ERR_WOULDBLOCK, bev)) \<and>
   (length (output_buf bev) \<le> output_upper_thres config \<and> fails \<longrightarrow>
      sendcb config fails bev data = (NGHTTP2_ERR_CALLBACK_FAILURE, bev)) \<and>
   (length (output_buf bev) \<le> output_upper_thres config \<and> \<not> fails \<and> length data < 2 ^ 31 \<longrightarrow>
      sendcb config fails bev data =
        (int (length data), bev \<lparr> output_buf := output_buf bev @ data \<rparr>)) \<and>
   output_upper_thres Config_init = 1048576"
proof -
  have "length data < 2 ^ 31 \<Longrightarrow> int_of_size_t (length data) = int (length data)"
    unfolding int_of_size_t_def
    by (simp add: signed_of_nat signed_take_bit_int_eq_self)
  then show ?thesis
    by (auto simp: sendcb_def evbuffer_add_def Config_init_def)
qed

text \<open>The three cases on the default configuration: a buffer of 1048577 bytes, a failing
  append, and a write of two bytes.\<close>

theorem sendcb_cases_witness:
  "sendcb Config_init False (bufferevent_new \<lparr> output_buf := replicate 1048577 (CHR ''a'') \<rparr>)
     ''ab'' =
     (NGHTTP2_ERR_WOULDBLOCK, bufferevent_new \<lparr> output_buf := replicate 1048577 (CHR ''a'') \<rparr>) \<and>
   sendcb Config_init True bufferevent_new ''ab'' =
     (NGHTTP2_ERR_CALLBACK_FAILURE, bufferevent_new) \<and>
   sendcb Config_init False bufferevent_new ''ab'' =
     (2, bufferevent_new \<lparr> output_buf := ''ab'' \<rparr>)"
  using sendcb_cases[of Config_init
      "bufferevent_new \<lparr> output_buf := replicate 1048577 (CHR ''a'') \<rparr>" False "''ab''"]
    sendcb_cases[of Config_init bufferevent_new True "''ab''"]
    sendcb_cases[of Config_init bufferevent_new False "''ab''"]
  by (simp add: Config_init_def bufferevent_new_def)

text \<open>A write of \<open>2 ^ 31\<close> bytes into an empty buffer is appended, and the value returned
  is negative.\<close>

theorem sendcb_large_write_wraps:
  "sendcb Config_init False bufferevent_new (replicate 2147483648 (CHR ''a'')) =
     (- 2147483648, bufferevent_new \<lparr> output_buf := replicate 2147483648 (CHR ''a'') \<rparr>)"
  by (simp add: sendcb_def Config_init_def bufferevent_new_def evbuffer_add_def
      int_of_size_t_def)

subsection \<open>The bounds of the header array\<close>

text \<open>
  C10. Every write into \<^verbatim>\<open>nv\<close> is to stay within the \<^verbatim>\<open>total_entry_count + 1\<close> slots
  allocated. For a request with an upload body and no user header, 16 slots are
  allocated (14 + 1 + 1), \<^verbatim>\<open>content-length\<close> and its value fill slots 14 and 15, and the
  terminating null pointer is written to slot 16, outside the array.
\<close>

theorem post_without_headers_overflows:
  "submit_request sample_ext post_client [] 0 = Inl OutOfBounds"
  by (simp add: submit_request_def post_client_def build_nv_def static_nv_def nv_write_def
      Request_new_def HttpClient_new_def)

subsection \<open>Admission, duplicates and multiplicity\<close>

lemma registry_ok_new: "registry_ok HttpClient_new"
  by (simp add: registry_ok_def HttpClient_new_def)

lemma add_request_registry_ok:
  "multiply config = 1 \<Longrightarrow> registry_ok client \<Longrightarrow>
   registry_ok (snd (add_request ext config client s prd len lv))"
  by (auto simp: add_request_def registry_ok_def Request_new_def split: prod.splits)

lemma add_request_fresh:
  "s \<notin> path_cache client \<Longrightarrow>
   add_request ext config client s prd len lv =
     (True, client \<lparr> path_cache := (if multiply config = 1 then insert s (path_cache client)
                                      else path_cache client),
                     reqvec := reqvec client @
                       [Request_new s (snd (parse_url ext s)) prd len lv] \<rparr>)"
  by (simp add: add_request_def split: prod.splits)

lemma add_request_seen:
  "s \<in> path_cache client \<Longrightarrow> add_request ext config client s prd len lv = (False, client)"
  by (simp add: add_request_def split: prod.splits)

lemma requests_for_registry:
  "registry_ok client \<Longrightarrow>
   requests_for s client = (if s \<in> path_cache client then 1 else 0)"
proof -
  assume ok: "registry_ok client"
  have "distinct (map uri xs) \<Longrightarrow>
        length (filter (\<lambda>r. uri r = s) xs) = (if s \<in> set (map uri xs) then 1 else 0)" for xs :: "('a, 'b) Request list"
    by (induction xs) auto
  then show ?thesis using ok by (simp add: registry_ok_def requests_for_def)
qed

lemma add_request_times_multi:
  "multiply config \<noteq> 1 \<Longrightarrow> path_cache client = {} \<Longrightarrow>
   path_cache (add_request_times ext config k s prd len client) = {} \<and>
   reqvec (add_request_times ext config k s prd len client) =
     reqvec client @ replicate k (Request_new s (snd (parse_url ext s)) prd len 0)"
proof (induction k arbitrary: client)
  case 0
  then show ?case by simp
next
  case (Suc k)
  let ?c = "snd (add_request ext config client s prd len 0)"
  have c: "path_cache ?c = {}"
    "reqvec ?c = reqvec client @ [Request_new s (snd (parse_url ext s)) prd len 0]"
    using Suc.prems by (simp_all add: add_request_fresh)
  show ?case
    using Suc.IH[OF Suc.prems(1) c(1)] c(2)
    by (simp add: replicate_app_Cons_same)
qed

text \<open>
  C7. In a session with multiplicity 1 (where the seen URIs are those of the requests),
  a second \<^verbatim>\<open>add_request\<close> of the same URI returns false and leaves the client as it
  is, and the client holds exactly one request for the URI. In a session with a
  multiplicity other than 1 (where no URI is ever recorded as seen), every
  \<^verbatim>\<open>add_request\<close> returns true and adds one request, so \<open>k\<close> admissions of a URI add
  \<open>k\<close> requests for it.
\<close>

theorem add_request_dedup_and_multiplicity:
  "(multiply config = 1 \<and> registry_ok client \<longrightarrow>
      \<not> fst (add_request ext config (snd (add_request ext config client s prd len lv)) s prd' len' lv') \<and>
      snd (add_request ext config (snd (add_request ext config client s prd len lv)) s prd' len' lv') =
        snd (add_request ext config client s prd len lv) \<and>
      requests_for s (snd (add_request ext config client s prd len lv)) = 1) \<and>
   (multiply config \<noteq> 1 \<and> path_cache client = {} \<longrightarrow>
      fst (add_request ext config client s prd len lv) \<and>
      requests_for s (snd (add_request ext config client s prd len lv)) = requests_for s client + 1 \<and>
      length (reqvec (add_request_times ext config k s prd len client)) = length (reqvec client) + k \<and>
      requests_for s (add_request_times ext config k s prd len client) = requests_for s client + k)"
proof (intro conjI impI)
  assume a: "multiply config = 1 \<and> registry_ok client"
  let ?c1 = "snd (add_request ext config client s prd len lv)"
  have in1: "s \<in> path_cache ?c1"
    using a by (cases "s \<in> path_cache client") (simp_all add: add_request_fresh add_request_seen)
  show "\<not> fst (add_request ext config ?c1 s prd' len' lv')"
    using in1 by (simp add: add_request_seen)
  show "snd (add_request ext config ?c1 s prd' len' lv') = ?c1"
    using in1 by (simp add: add_request_seen)
  have "registry_ok ?c1" using a by (simp add: add_request_registry_ok)
  then show "requests_for s ?c1 = 1"
    using in1 by (simp add: requests_for_registry)
next
  assume b: "multiply config \<noteq> 1 \<and> path_cache client = {}"
  then show "fst (add_request ext config client s prd len lv)"
    by (simp add: add_request_fresh)
  show "requests_for s (snd (add_request ext config client s prd len lv)) = requests_for s client + 1"
    using b by (simp add: add_request_fresh requests_for_def Request_new_def)
  show "length (reqvec (add_request_times ext config k s prd len client)) = length (reqvec client) + k"
    using b add_request_times_multi[of config client ext k s prd len] by simp
  show "requests_for s (add_request_times ext config k s prd len client) = requests_for s client + k"
    using b add_request_times_multi[of config client ext k s prd len]
    by (simp add: requests_for_def Request_new_def)
qed

text \<open>One URI admitted twice by a fresh client with multiplicity 1, and three times with
  multiplicity 3.\<close>

theorem add_request_dedup_and_multiplicity_witness:
  "add_request sample_ext Config_init (snd (add_request sample_ext Config_init HttpClient_new ''https://h/a'' False 0 0)) ''https://h/a'' False 0 0 =
     (False, snd (add_request sample_ext Config_init HttpClient_new ''https://h/a'' False 0 0)) \<and>
   requests_for ''https://h/a'' (snd (add_request sample_ext Config_init HttpClient_new ''https://h/a'' False 0 0)) = 1 \<and>
   requests_for ''https://h/a''
     (add_request_times sample_ext (Config_init \<lparr> multiply := 3 \<rparr>) 3 ''https://h/a'' False 0 HttpClient_new) = 3"
proof -
  have m1: "multiply Config_init = 1 \<and> registry_ok (HttpClient_new :: (unit, string list) HttpClient)"
    by (simp add: Config_init_def registry_ok_new)
  have m3: "multiply (Config_init \<lparr> multiply := 3 \<rparr>) \<noteq> 1 \<and>
      path_cache (HttpClient_new :: (unit, string list) HttpClient) = {}"
    by (simp add: HttpClient_new_def)
  have z: "requests_for ''https://h/a'' (HttpClient_new :: (unit, string list) HttpClient) = 0"
    by (simp add: requests_for_def HttpClient_new_def)
  show ?thesis
    using add_request_dedup_and_multiplicity[of Config_init HttpClient_new sample_ext
        "''https://h/a''" False 0 0 False 0 0 0]
      add_request_dedup_and_multiplicity[of "Config_init \<lparr> multiply := 3 \<rparr>" HttpClient_new
        sample_ext "''https://h/a''" False 0 0 False 0 0 3] m1 m3 z
    by (simp add: prod_eq_iff)
qed

subsection \<open>The header block of a request\<close>

lemma strieq_names:
  "strieq k ''accept'' \<Longrightarrow> \<not> strieq k ''user-agent'' \<and> \<not> strieq k ''host''"
  "strieq k ''user-agent'' \<Longrightarrow> \<not> strieq k ''accept'' \<and> \<not> strieq k ''host''"
  "strieq k ''host'' \<Longrightarrow> \<not> strieq k ''accept'' \<and> \<not> strieq k ''user-agent''"
  by (auto simp: strieq_def c_str_def NUL_def lowcase_def)

lemma ov_Cons:
  "ov name ((k, v) # hs) a = (if strieq k name then ov name hs (Some (c_str v)) else ov name hs a)"
  by (simp add: ov_def split: list.splits)

lemma upd_take_same: "i < p \<Longrightarrow> (take p xs)[i := xs ! i] = take p xs"
  by (metis list_update_id nth_take)

lemma header_loop_char:
  "header_loop nv pos hs = Inr (nv', pos') \<Longrightarrow> 14 \<le> pos \<Longrightarrow> pos \<le> length nv \<Longrightarrow>
   pos' = pos + 2 * length (appended_headers hs) \<and> pos' \<le> length nv \<and>
   nv' = (take pos nv)[7 := ov ''host'' hs (nv ! 7), 9 := ov ''accept'' hs (nv ! 9),
                        13 := ov ''user-agent'' hs (nv ! 13)] @
         flat (appended_headers hs) @ drop pos' nv"
proof (induction hs arbitrary: nv pos)
  case Nil
  then show ?case
    by (simp add: appended_headers_def flat_def ov_def upd_take_same)
next
  case (Cons h hs)
  obtain k v where h: "h = (k, v)" by (cases h)
  consider (a) "strieq k ''accept''" | (u) "strieq k ''user-agent''" | (ho) "strieq k ''host''"
    | (other) "\<not> is_override k"
    by (auto simp: is_override_def)
  then show ?case
  proof cases
    case a
    let ?nv1 = "nv[9 := Some (c_str v)]"
    have l: "header_loop ?nv1 pos hs = Inr (nv', pos')"
      using Cons.prems a by (simp add: h nv_write_def POS_ACCEPT_def split: if_splits)
    have ov: "is_override k" using a by (simp add: is_override_def)
    from Cons.IH[OF l] Cons.prems(2,3) strieq_names(1)[OF a] a ov
    show ?thesis
      by (simp add: h ov_Cons appended_headers_def take_update_swap list_update_swap[of 9 7]
          list_update_swap[of 9 13] drop_update_cancel)
  next
    case u
    let ?nv1 = "nv[13 := Some (c_str v)]"
    have na: "\<not> strieq k ''accept''" using strieq_names(2)[OF u] by simp
    have l: "header_loop ?nv1 pos hs = Inr (nv', pos')"
      using Cons.prems u na by (simp add: h nv_write_def POS_USERAGENT_def split: if_splits)
    have ov: "is_override k" using u by (simp add: is_override_def)
    from Cons.IH[OF l] Cons.prems(2,3) strieq_names(2)[OF u] u ov
    show ?thesis
      by (simp add: h ov_Cons appended_headers_def take_update_swap list_update_swap[of 13 7]
          list_update_swap[of 13 9] drop_update_cancel)
  next
    case ho
    let ?nv1 = "nv[7 := Some (c_str v)]"
    have na: "\<not> strieq k ''accept''" "\<not> strieq k ''user-agent''"
      using strieq_names(3)[OF ho] by simp_all
    have l: "header_loop ?nv1 pos hs = Inr (nv', pos')"
      using Cons.prems ho na by (simp add: h nv_write_def POS_HOST_def split: if_splits)
    have ov: "is_override k" using ho by (simp add: is_override_def)
    from Cons.IH[OF l] Cons.prems(2,3) na ho ov
    show ?thesis
      by (simp add: h ov_Cons appended_headers_def take_update_swap drop_update_cancel)
  next
    case other
    then have n: "\<not> strieq k ''accept''" "\<not> strieq k ''user-agent''" "\<not> strieq k ''host''"
      by (simp_all add: is_override_def)
    let ?nv2 = "nv[pos := Some (c_str k), pos + 1 := Some (c_str v)]"
    have b: "pos + 1 < length nv" and l: "header_loop ?nv2 (pos + 2) hs = Inr (nv', pos')"
      using Cons.prems n by (auto simp: h nv_write_def split: if_splits)
    have t: "take (pos + 2) ?nv2 = take pos nv @ [Some (c_str k), Some (c_str v)]"
      using b by (simp add: take_Suc_conv_app_nth numeral_2_eq_2)
    from Cons.IH[OF l] Cons.prems(2,3) b have
      p: "pos' = pos + 2 + 2 * length (appended_headers hs)" "pos' \<le> length nv"
      and e: "nv' = (take (pos + 2) ?nv2)[7 := ov ''host'' hs (?nv2 ! 7),
                9 := ov ''accept'' hs (?nv2 ! 9), 13 := ov ''user-agent'' hs (?nv2 ! 13)] @
              flat (appended_headers hs) @ drop pos' ?nv2"
      by simp_all
    have d: "drop pos' ?nv2 = drop pos' nv" using p by (simp add: drop_update_cancel)
    have ap: "appended_headers ((k, v) # hs) = (c_str k, c_str v) # appended_headers hs"
      using other by (simp add: appended_headers_def)
    have lt: "length (take pos nv) = pos" using Cons.prems(3) by simp
    have t': "(take (pos + 2) ?nv2)[7 := a, 9 := b, 13 := c] =
              (take pos nv)[7 := a, 9 := b, 13 := c] @ [Some (c_str k), Some (c_str v)]" for a b c
      unfolding t using Cons.prems(2) lt by (simp add: list_update_append1)
    have nth: "?nv2 ! 7 = nv ! 7" "?nv2 ! 9 = nv ! 9" "?nv2 ! 13 = nv ! 13"
      using Cons.prems(2) by simp_all
    have o: "ov name ((k, v) # hs) x = ov name hs x"
      if "name = ''host'' \<or> name = ''accept'' \<or> name = ''user-agent''" for name x
      using that n by (auto simp: ov_Cons)
    have "nv' = ((take pos nv)[7 := ov ''host'' hs (nv ! 7), 9 := ov ''accept'' hs (nv ! 9),
                   13 := ov ''user-agent'' hs (nv ! 13)] @ [Some (c_str k), Some (c_str v)]) @
              flat (appended_headers hs) @ drop pos' nv"
      using e unfolding t' nth d .
    then have "nv' = (take pos nv)[7 := ov ''host'' (h # hs) (nv ! 7),
                   9 := ov ''accept'' (h # hs) (nv ! 9),
                   13 := ov ''user-agent'' (h # hs) (nv ! 13)] @
              flat (appended_headers (h # hs)) @ drop pos' nv"
      unfolding h ap by (simp add: o flat_def)
    moreover have "pos' = pos + 2 * length (appended_headers (h # hs))"
      using p unfolding h ap by simp
    ultimately show ?thesis using p(2) by blast
  qed
qed

lemma static_nv_length: "length (static_nv ext client req) = 14"
  by (simp add: static_nv_def)

lemma header_loop_total:
  "14 \<le> pos \<Longrightarrow> pos + 2 * length (appended_headers hs) \<le> length nv \<Longrightarrow>
   \<exists>r. header_loop nv pos hs = Inr r"
proof (induction hs arbitrary: nv pos)
  case Nil
  then show ?case by simp
next
  case (Cons h hs)
  obtain k v where h: "h = (k, v)" by (cases h)
  show ?case
  proof (cases "is_override k")
    case True
    then have ap: "appended_headers (h # hs) = appended_headers hs"
      by (simp add: h appended_headers_def)
    have "\<exists>r. header_loop (nv[j := x]) pos hs = Inr r" for j x
      using Cons.IH[of pos "nv[j := x]"] Cons.prems ap by simp
    then show ?thesis
      using Cons.prems True
      by (auto simp: h is_override_def nv_write_def POS_ACCEPT_def POS_USERAGENT_def POS_HOST_def)
  next
    case False
    then have ap: "appended_headers (h # hs) = (c_str k, c_str v) # appended_headers hs"
      by (simp add: h appended_headers_def)
    have "\<exists>r. header_loop (nv[pos := x, pos + 1 := y]) (pos + 2) hs = Inr r" for x y
      using Cons.IH[of "pos + 2" "nv[pos := x, pos + 1 := y]"] Cons.prems ap by simp
    then show ?thesis
      using Cons.prems False ap
      by (auto simp: h is_override_def nv_write_def)
  qed
qed

lemma ov_Some: "ov name hs (Some d) = Some (user_value name hs d)"
  by (simp add: ov_def user_value_def split: list.splits)

lemma update_static:
  "(a0 # a1 # a2 # a3 # a4 # a5 # a6 # a7 # a8 # a9 # a10 # a11 # a12 # a13 # xs)
     [7 := x, 9 := y, 13 := z] =
   a0 # a1 # a2 # a3 # a4 # a5 # a6 # x # a8 # y # a10 # a11 # a12 # z # xs"
  by (simp add: eval_nat_numeral)

lemma header_block_flat: "header_block (flat ps @ None # rest) = ps"
  by (induction ps) (simp_all add: flat_def)

lemma length_flat: "length (flat ps) = 2 * length ps"
  by (induction ps) (simp_all add: flat_def)

lemma length_appended_le: "length (appended_headers hs) \<le> length hs"
  by (simp add: appended_headers_def)

lemma build_nv_shape:
  assumes "build_nv ext client hdrs req = Inr nv"
  shows "\<exists>m. nv = flat (expected_block ext client hdrs req) @ replicate (Suc m) None"
proof -
  let ?S = "static_nv ext client req"
  let ?h = "length hdrs"
  let ?a = "length (appended_headers hdrs)"
  let ?fixed = "(map Some ?S)[7 := ov ''host'' hdrs (Some (c_str (hostport client))),
                  9 := ov ''accept'' hdrs (Some ''*/*''),
                  13 := ov ''user-agent'' hdrs (Some (''nghttp2/'' @ version ext))]"
  have fixed: "?fixed = flat (take 7 (expected_block ext client hdrs req))"
    by (simp add: static_nv_def update_static ov_Some expected_block_def flat_def)
  show ?thesis
  proof (cases "data_prd req")
    case False
    let ?nv0 = "map Some ?S @ replicate (?h * 2 + 1) None"
    from assms False obtain nv4 pos4 where
      l: "header_loop ?nv0 14 hdrs = Inr (nv4, pos4)" and w: "nv_write nv4 pos4 None = Inr nv"
      by (auto simp: build_nv_def Let_def static_nv_length split: sum.splits prod.splits)
    from header_loop_char[OF l] have
      p: "pos4 = 14 + 2 * ?a" "pos4 \<le> length ?nv0"
      and e: "nv4 = (take 14 ?nv0)[7 := ov ''host'' hdrs (?nv0 ! 7),
                9 := ov ''accept'' hdrs (?nv0 ! 9), 13 := ov ''user-agent'' hdrs (?nv0 ! 13)] @
              flat (appended_headers hdrs) @ drop pos4 ?nv0"
      by (simp_all add: static_nv_length)
    have t: "take 14 ?nv0 = map Some ?S" by (simp add: static_nv_length)
    have n: "?nv0 ! 7 = Some (c_str (hostport client))" "?nv0 ! 9 = Some ''*/*''"
      "?nv0 ! 13 = Some (''nghttp2/'' @ version ext)"
      by (simp_all add: nth_append static_nv_length) (simp_all add: static_nv_def)
    have d: "drop pos4 ?nv0 = replicate (Suc (?h * 2 - 2 * ?a)) None"
      using p(1) length_appended_le[of hdrs]
      by (simp add: static_nv_length Suc_diff_le del: replicate.simps)
    have nv4: "nv4 = flat (expected_block ext client hdrs req) @
                 replicate (Suc (?h * 2 - 2 * ?a)) None"
      using e unfolding t n d fixed
      by (simp add: expected_block_def False flat_def)
    have len: "length (flat (expected_block ext client hdrs req)) = pos4"
      using p(1) by (simp add: length_flat expected_block_def False appended_headers_def)
    have "nv4 ! pos4 = None" unfolding nv4 using len by (simp add: nth_append)
    then have "nv = nv4" using w list_update_id[of nv4 pos4]
      by (auto simp: nv_write_def split: if_splits)
    then show ?thesis using nv4 by blast
  next
    case True
    let ?cl = "[Some ''content-length'', Some (dec_of_int (data_length req))]"
    let ?nv3 = "map Some ?S @ ?cl @ replicate (?h * 2) None"
    have w2: "(map Some ?S @ replicate (?h * 2 + 2) None)
                [14 := Some ''content-length'', 15 := Some (dec_of_int (data_length req))] = ?nv3"
      by (simp add: list_update_append static_nv_length eval_nat_numeral)
    from assms True obtain nv4 pos4 where
      l: "header_loop ?nv3 16 hdrs = Inr (nv4, pos4)" and w: "nv_write nv4 pos4 None = Inr nv"
      using w2
      by (auto simp: build_nv_def Let_def static_nv_length nv_write_def
          split: sum.splits prod.splits if_splits)
    from header_loop_char[OF l] have
      p: "pos4 = 16 + 2 * ?a" "pos4 \<le> length ?nv3"
      and e: "nv4 = (take 16 ?nv3)[7 := ov ''host'' hdrs (?nv3 ! 7),
                9 := ov ''accept'' hdrs (?nv3 ! 9), 13 := ov ''user-agent'' hdrs (?nv3 ! 13)] @
              flat (appended_headers hdrs) @ drop pos4 ?nv3"
      by (simp_all add: static_nv_length)
    have t: "take 16 ?nv3 = map Some ?S @ ?cl" by (simp add: static_nv_length)
    have n: "?nv3 ! 7 = Some (c_str (hostport client))" "?nv3 ! 9 = Some ''*/*''"
      "?nv3 ! 13 = Some (''nghttp2/'' @ version ext)"
      by (simp_all add: nth_append static_nv_length) (simp_all add: static_nv_def)
    have d: "drop pos4 ?nv3 = replicate (?h * 2 - 2 * ?a) None"
      using p(1) length_appended_le[of hdrs] by (simp add: static_nv_length)
    have up: "(map Some ?S @ ?cl)[7 := x, 9 := y, 13 := z] = (map Some ?S)[7 := x, 9 := y, 13 := z] @ ?cl"
      for x y z
      by (simp add: list_update_append1 static_nv_length)
    have nv4: "nv4 = flat (expected_block ext client hdrs req) @
                 replicate (?h * 2 - 2 * ?a) None"
      using e unfolding t n d up fixed
      by (simp add: expected_block_def True flat_def)
    have len: "length (flat (expected_block ext client hdrs req)) = pos4"
      using p(1) by (simp add: length_flat expected_block_def True appended_headers_def)
    have lt: "pos4 < length nv4" using w by (auto simp: nv_write_def split: if_splits)
    then obtain m where m: "?h * 2 - 2 * ?a = Suc m"
      unfolding nv4 using len by (cases "?h * 2 - 2 * ?a") simp_all
    have "nv4 ! pos4 = None" unfolding nv4 m using len by (simp add: nth_append)
    then have "nv = nv4" using w list_update_id[of nv4 pos4]
      by (auto simp: nv_write_def split: if_splits)
    then show ?thesis using nv4 m by auto
  qed
qed

lemma strieq_c_str: "strieq (c_str k) n = strieq k n"
  by (simp add: strieq_def c_str_def)

lemma filter_appended:
  "name = ''accept'' \<or> name = ''user-agent'' \<or> name = ''host'' \<Longrightarrow>
   filter (\<lambda>h. strieq (fst h) name) (appended_headers hs) = []"
  by (auto simp: appended_headers_def filter_empty_conv is_override_def strieq_c_str)

lemma strieq_static:
  "strieq '':method'' ''accept'' = False"
  "strieq '':method'' ''user-agent'' = False"
  "strieq '':method'' ''host'' = False"
  "strieq '':path'' ''accept'' = False"
  "strieq '':path'' ''user-agent'' = False"
  "strieq '':path'' ''host'' = False"
  "strieq '':scheme'' ''accept'' = False"
  "strieq '':scheme'' ''user-agent'' = False"
  "strieq '':scheme'' ''host'' = False"
  "strieq '':host'' ''accept'' = False"
  "strieq '':host'' ''user-agent'' = False"
  "strieq '':host'' ''host'' = False"
  "strieq ''accept'' ''accept'' = True"
  "strieq ''accept'' ''user-agent'' = False"
  "strieq ''accept'' ''host'' = False"
  "strieq ''accept-encoding'' ''accept'' = False"
  "strieq ''accept-encoding'' ''user-agent'' = False"
  "strieq ''accept-encoding'' ''host'' = False"
  "strieq ''user-agent'' ''accept'' = False"
  "strieq ''user-agent'' ''user-agent'' = True"
  "strieq ''user-agent'' ''host'' = False"
  "strieq ''content-length'' ''accept'' = False"
  "strieq ''content-length'' ''user-agent'' = False"
  "strieq ''content-length'' ''host'' = False"
  by (simp_all add: strieq_def c_str_def NUL_def lowcase_def)

lemma expected_block_counts:
  "length (filter (\<lambda>h. strieq (fst h) ''accept'') (expected_block ext client hdrs req)) = 1"
  "length (filter (\<lambda>h. strieq (fst h) ''user-agent'') (expected_block ext client hdrs req)) = 1"
  "filter (\<lambda>h. strieq (fst h) ''host'') (expected_block ext client hdrs req) = []"
  by (simp_all add: expected_block_def filter_appended strieq_static)

lemma build_nv_header_block:
  "build_nv ext client hdrs req = Inr nv \<Longrightarrow>
   header_block nv = expected_block ext client hdrs req"
  using build_nv_shape[of ext client hdrs req nv] by (auto simp: header_block_flat)

lemma build_nv_get_total:
  assumes "\<not> data_prd req"
  shows "\<exists>nv. build_nv ext client hdrs req = Inr nv"
proof -
  let ?nv0 = "map Some (static_nv ext client req) @ replicate (length hdrs * 2 + 1) None"
  have le: "14 + 2 * length (appended_headers hdrs) \<le> length ?nv0"
    using length_appended_le[of hdrs] by (simp add: static_nv_length)
  from header_loop_total[OF _ le] obtain nv4 pos4 where
    l: "header_loop ?nv0 14 hdrs = Inr (nv4, pos4)" by auto
  from header_loop_char[OF l] have
    p: "pos4 = 14 + 2 * length (appended_headers hdrs)"
    and e: "nv4 = (take 14 ?nv0)[7 := ov ''host'' hdrs (?nv0 ! 7),
                9 := ov ''accept'' hdrs (?nv0 ! 9), 13 := ov ''user-agent'' hdrs (?nv0 ! 13)] @
              flat (appended_headers hdrs) @ drop pos4 ?nv0"
    by (simp_all add: static_nv_length)
  have "length nv4 = length ?nv0"
    unfolding e using p length_appended_le[of hdrs]
    by (simp add: static_nv_length length_flat)
  then have "pos4 < length nv4"
    using p length_appended_le[of hdrs] by (simp add: static_nv_length)
  then show ?thesis
    using assms l by (simp add: build_nv_def Let_def static_nv_length nv_write_def)
qed

text \<open>With an upload body and no user header that replaces a default, the terminator falls
  outside the array, whatever the headers are.\<close>

lemma build_nv_post_overflow:
  assumes "data_prd req" and "length (appended_headers hdrs) = length hdrs"
  shows "build_nv ext client hdrs req = Inl OutOfBounds"
proof -
  let ?S = "static_nv ext client req"
  let ?cl = "[Some ''content-length'', Some (dec_of_int (data_length req))]"
  let ?nv3 = "map Some ?S @ ?cl @ replicate (length hdrs * 2) None"
  have w2: "(map Some ?S @ replicate (length hdrs * 2 + 2) None)
              [14 := Some ''content-length'', 15 := Some (dec_of_int (data_length req))] = ?nv3"
    by (simp add: list_update_append static_nv_length eval_nat_numeral)
  have le: "16 + 2 * length (appended_headers hdrs) \<le> length ?nv3"
    using assms(2) by (simp add: static_nv_length)
  from header_loop_total[OF _ le] obtain nv4 pos4 where
    l: "header_loop ?nv3 16 hdrs = Inr (nv4, pos4)" by auto
  from header_loop_char[OF l] have
    p: "pos4 = 16 + 2 * length (appended_headers hdrs)"
    and e: "nv4 = (take 16 ?nv3)[7 := ov ''host'' hdrs (?nv3 ! 7),
                9 := ov ''accept'' hdrs (?nv3 ! 9), 13 := ov ''user-agent'' hdrs (?nv3 ! 13)] @
              flat (appended_headers hdrs) @ drop pos4 ?nv3"
    by (simp_all add: static_nv_length)
  have "length nv4 = length ?nv3"
    unfolding e using p assms(2) by (simp add: static_nv_length length_flat)
  then have "\<not> pos4 < length nv4"
    using p assms(2) by (simp add: static_nv_length)
  then show ?thesis
    using assms(1) l w2
    by (simp add: build_nv_def Let_def static_nv_length nv_write_def)
qed

text \<open>
  C9, as the code has it. Without an upload body the array is always built. Whenever it
  is built, the header block is the one of the header order: the seven defaults, then
  \<^verbatim>\<open>content-length\<close> when a body is attached, then the user headers with other names in
  iteration order. It holds exactly one header named \<^verbatim>\<open>accept\<close> and exactly one named
  \<^verbatim>\<open>user-agent\<close> (names compared without case), each with the value of the \<^emph>\<open>last\<close> user
  header of that name, or the default when there is none. A user header named \<^verbatim>\<open>host\<close>
  gives its value to the pseudo-header \<^verbatim>\<open>:host\<close>; no header named \<^verbatim>\<open>host\<close> is emitted.
\<close>

theorem user_headers_replace_defaults:
  "(\<not> data_prd req \<longrightarrow> (\<exists>nv. build_nv ext client hdrs req = Inr nv)) \<and>
   (\<forall>nv. build_nv ext client hdrs req = Inr nv \<longrightarrow>
      header_block nv = expected_block ext client hdrs req \<and>
      length (filter (\<lambda>h. strieq (fst h) ''accept'') (header_block nv)) = 1 \<and>
      length (filter (\<lambda>h. strieq (fst h) ''user-agent'') (header_block nv)) = 1 \<and>
      filter (\<lambda>h. strieq (fst h) ''host'') (header_block nv) = [])"
  using build_nv_get_total[of req ext client hdrs]
  by (auto simp: build_nv_header_block expected_block_counts)

text \<open>A request with the user headers \<^verbatim>\<open>User-Agent: probe\<close> and \<^verbatim>\<open>x-trace: 1\<close>.\<close>

theorem user_headers_replace_defaults_witness:
  "build_nv sample_ext get_client [(''User-Agent'', ''probe''), (''x-trace'', ''1'')]
     (reqvec get_client ! 0) =
     Inr (map Some
           ['':method'', ''GET'', '':path'', ''/a'', '':scheme'', ''https'', '':host'', ''h'',
            ''accept'', ''*/*'', ''accept-encoding'', ''gzip, deflate'',
            ''user-agent'', ''probe'', ''x-trace'', ''1'']
          @ replicate 3 None) \<and>
   header_block (map Some
           ['':method'', ''GET'', '':path'', ''/a'', '':scheme'', ''https'', '':host'', ''h'',
            ''accept'', ''*/*'', ''accept-encoding'', ''gzip, deflate'',
            ''user-agent'', ''probe'', ''x-trace'', ''1'']
          @ replicate 3 None) =
     expected_block sample_ext get_client [(''User-Agent'', ''probe''), (''x-trace'', ''1'')]
       (reqvec get_client ! 0) \<and>
   length (filter (\<lambda>h. strieq (fst h) ''user-agent'')
     (header_block (map Some
           ['':method'', ''GET'', '':path'', ''/a'', '':scheme'', ''https'', '':host'', ''h'',
            ''accept'', ''*/*'', ''accept-encoding'', ''gzip, deflate'',
            ''user-agent'', ''probe'', ''x-trace'', ''1'']
          @ replicate 3 None))) = 1"
proof -
  let ?hs = "[(''User-Agent'', ''probe''), (''x-trace'', ''1'')]"
  let ?nv = "map Some
           ['':method'', ''GET'', '':path'', ''/a'', '':scheme'', ''https'', '':host'', ''h'',
            ''accept'', ''*/*'', ''accept-encoding'', ''gzip, deflate'',
            ''user-agent'', ''probe'', ''x-trace'', ''1'']
          @ replicate 3 None"
  have e: "build_nv sample_ext get_client ?hs (reqvec get_client ! 0) = Inr ?nv"
    by code_simp
  show ?thesis
    using user_headers_replace_defaults[of "reqvec get_client ! 0" sample_ext get_client ?hs] e
    by blast
qed

text \<open>The user headers \<^verbatim>\<open>Accept: text/html\<close>, \<^verbatim>\<open>accept: image/png\<close> and
  \<^verbatim>\<open>host: example.org\<close>: the block carries \<^verbatim>\<open>image/png\<close> and not \<^verbatim>\<open>text/html\<close>, and it
  has no header named \<^verbatim>\<open>host\<close>.\<close>

theorem later_user_header_wins:
  "build_nv sample_ext get_client
     [(''Accept'', ''text/html''), (''accept'', ''image/png''), (''host'', ''example.org'')]
     (reqvec get_client ! 0) =
     Inr (map Some
           ['':method'', ''GET'', '':path'', ''/a'', '':scheme'', ''https'',
            '':host'', ''example.org'', ''accept'', ''image/png'',
            ''accept-encoding'', ''gzip, deflate'', ''user-agent'', ''nghttp2/0.1.0'']
          @ replicate 7 None)"
  by code_simp

subsection \<open>Requests admitted by asset discovery\<close>



















subsection \<open>The GOAWAY of a session\<close>

lemma upt_append_upt: "a \<le> b \<Longrightarrow> b \<le> c \<Longrightarrow> [a..<b] @ [b..<c] = [a..<c]"
  by (metis le_Suc_ex upt_add_eq_append)

lemma grows_refl: "grows c c"
  by (simp add: grows_def)

lemma grows_trans: "grows c c1 \<Longrightarrow> grows c1 c2 \<Longrightarrow> grows c c2"
  by (auto simp: grows_def upt_append_upt)

lemma goaways_append: "goaways (xs @ ys) = goaways xs @ goaways ys"
  by (simp add: goaways_def)

lemma submit_request_effect:
  "submit_request ext c hdrs i = Inr c' \<Longrightarrow>
   reqvec c' = reqvec c \<and> streams c' = streams c \<and> complete c' = complete c \<and>
   stream_user_data (session c') = stream_user_data (session c) \<and>
   goaways (submitted (session c')) = goaways (submitted (session c)) \<and>
   pending (session c') = pending (session c) @ [i]"
  by (auto simp: submit_request_def goaways_append goaways_def split: if_splits sum.splits)

lemma admit_link_grows:
  assumes "admit_link ext config i c raw = Inr c'"
  shows "grows c c'"
proof (cases "same_origin ext (reqvec c ! i) (strip_fragment raw)")
  case False
  then show ?thesis using assms by (simp add: admit_link_def Let_def grows_refl)
next
  case so: True
  show ?thesis
  proof (cases "strip_fragment raw \<in> path_cache c")
    case True
    then show ?thesis using assms so
      by (simp add: admit_link_def Let_def add_request_def grows_refl split: prod.splits)
  next
    case False
    define c1 where "c1 = snd (add_request ext config c (strip_fragment raw) False 0
                                 (level (reqvec c ! i) + 1))"
    have a: "add_request ext config c (strip_fragment raw) False 0 (level (reqvec c ! i) + 1) =
               (True, c1)"
      using False by (simp add: c1_def add_request_def split: prod.splits)
    have c1: "length (reqvec c1) = Suc (length (reqvec c))" "streams c1 = streams c"
      "complete c1 = complete c" "session c1 = session c"
      using False by (simp_all add: c1_def add_request_def split: prod.splits)
    have s: "submit_request ext c1 (headers config) (length (reqvec c1) - 1) = Inr c'"
      using assms so a by (simp add: admit_link_def Let_def)
    from submit_request_effect[OF s] c1 show ?thesis
      by (simp add: grows_def)
  qed
qed

lemma admit_links_grows:
  "admit_links ext config i c links = Inr c' \<Longrightarrow> grows c c'"
proof (induction links arbitrary: c)
  case Nil
  then show ?case by (simp add: grows_refl)
next
  case (Cons raw links)
  then show ?case
    by (auto split: sum.splits intro: grows_trans dest: admit_link_grows)
qed

lemma set_html_parser_grows: "grows c (set_html_parser i h c)"
  by (simp add: grows_def set_html_parser_def)

lemma set_inflater_grows: "grows c (set_inflater i z c)"
  by (simp add: grows_def set_inflater_def)

lemma set_stat_grows: "grows c (set_stat i f c)"
  by (simp add: grows_def set_stat_def)

lemma write_cout_grows: "grows c (write_cout config bytes c)"
  by (simp add: grows_def write_cout_def)

lemma submit_rst_stream_grows: "grows c (submit_rst_stream sid code c)"
  by (simp add: grows_def submit_rst_stream_def goaways_append goaways_def)

lemma update_html_parser_grows:
  assumes "update_html_parser ext config c i data fin = Inr c'"
  shows "grows c c'"
proof (cases "html_parser (reqvec c ! i)")
  case None
  then show ?thesis using assms
    by (auto simp: update_html_parser_def grows_refl split: if_splits)
next
  case (Some hp)
  from assms Some obtain c2 where
    c2: "admit_links ext config i (set_html_parser i (Some (parse_chunk ext hp data fin)) c)
           (get_links ext (parse_chunk ext hp data fin)) = Inr c2"
    and c': "c' = set_html_parser i (Some (clear_links ext (parse_chunk ext hp data fin))) c2"
    by (auto simp: update_html_parser_def Let_def split: if_splits sum.splits)
  show ?thesis
    unfolding c'
    using grows_trans[OF grows_trans[OF set_html_parser_grows admit_links_grows[OF c2]]
        set_html_parser_grows] .
qed

lemma inflate_loop_grows:
  assumes "inflate_loop ext config sid i c data = Some r"
  shows "\<forall>c'. r = Inr c' \<longrightarrow> grows c c'"
proof (rule inflate_loop.raw_induct[OF _ assms,
      where P = "\<lambda>ext config sid i c data r. \<forall>c'. r = Inr c' \<longrightarrow> grows c c'"], goal_cases)
  case (1 loop ext config sid i client data r)
  have "grows client c'" if r: "r = Inr c'" for c'
  proof (cases "data = []")
    case True
    with 1(2) r show ?thesis by (auto simp: grows_refl)
  next
    case ne: False
    from 1(2) r ne obtain z where z: "inflater (reqvec client ! i) = Some z"
      by (auto split: option.splits)
    obtain rv z1 out tlen where inf: "inflate ext z data = (rv, z1, out, tlen)"
      by (cases "inflate ext z data")
    let ?c1 = "set_inflater i (Some z1) client"
    show ?thesis
    proof (cases "rv = 0")
      case False
      with 1(2) r ne z inf have "c' = submit_rst_stream sid NGHTTP2_INTERNAL_ERROR ?c1"
        by (simp add: Let_def)
      then show ?thesis
        using grows_trans[OF set_inflater_grows submit_rst_stream_grows] by simp
    next
      case True
      with 1(2) r ne z inf obtain c2 where
        u: "update_html_parser ext config (write_cout config out ?c1) i out 0 = Inr c2"
        and l: "loop ext config sid i c2 (drop tlen data) = Some r"
        by (auto simp: Let_def split: sum.splits)
      have "grows client c2"
        using grows_trans[OF grows_trans[OF set_inflater_grows write_cout_grows]
            update_html_parser_grows[OF u]] .
      then show ?thesis using 1(1)[OF l] r grows_trans by blast
    qed
  qed
  then show ?case by blast
qed

lemma on_data_chunk_grows:
  assumes "on_data_chunk_recv_callback ext config c sid data = Some (Inr c')"
  shows "grows c c'"
proof (cases "streams c sid")
  case None
  then show ?thesis using assms by (simp add: on_data_chunk_recv_callback_def grows_refl)
next
  case (Some i)
  show ?thesis
  proof (cases "inflater (reqvec c ! i) = None")
    case True
    with assms Some have
      "update_html_parser ext config (write_cout config data c) i data 0 = Inr c'"
      by (simp add: on_data_chunk_recv_callback_def split: if_splits)
    then show ?thesis
      using grows_trans[OF write_cout_grows update_html_parser_grows] by blast
  next
    case False
    with assms Some have "inflate_loop ext config sid i c data = Some (Inr c')"
      by (simp add: on_data_chunk_recv_callback_def split: if_splits)
    then show ?thesis using inflate_loop_grows by blast
  qed
qed

lemma check_response_header_grows:
  "check_response_header ext config c frame = Inr c' \<Longrightarrow>
   grows c c' \<and> length (reqvec c') = length (reqvec c)"
  by (auto simp: check_response_header_def grows_def Let_def
      split: if_splits option.splits sum.splits prod.splits)

lemma on_frame_recv_grows:
  assumes "on_frame_recv_callback2 ext config now c frame = Inr c'"
  shows "grows c c' \<and> length (reqvec c') = length (reqvec c)"
  using assms
  by (auto simp: on_frame_recv_callback2_def set_stat_def grows_def
      split: if_splits option.splits sum.splits
      dest!: check_response_header_grows[unfolded grows_def])

lemma on_frame_send_other_grows:
  assumes "on_frame_send_callback2 ext config now c frame = Inr c'"
    and "hd_type frame \<noteq> NGHTTP2_HEADERS \<or> headers_cat frame \<noteq> NGHTTP2_HCAT_START_STREAM"
  shows "grows c c' \<and> length (reqvec c') = length (reqvec c)"
  using assms by (auto simp: on_frame_send_callback2_def grows_def split: if_splits)

lemma streams_inj:
  assumes "session_inv c closed"
  shows "inj_on (\<lambda>s. the (streams c s)) (dom (streams c))"
proof (rule inj_onI)
  fix s s' assume s: "s \<in> dom (streams c)" and s': "s' \<in> dom (streams c)"
    and e: "the (streams c s) = the (streams c s')"
  from s s' obtain a b where ab: "streams c s = Some a" "streams c s' = Some b" by auto
  with e have "a = b" by simp
  with ab assms show "s = s'" unfolding session_inv_def by blast
qed

lemma streams_range:
  assumes "session_inv c closed"
  shows "(\<lambda>s. the (streams c s)) ` dom (streams c) \<subseteq> {..<length (reqvec c)}"
proof
  fix i assume "i \<in> (\<lambda>s. the (streams c s)) ` dom (streams c)"
  then obtain s where "streams c s = Some i" by auto
  with assms show "i \<in> {..<length (reqvec c)}" unfolding session_inv_def by blast
qed

lemma inv_complete_lt:
  assumes inv: "session_inv c closed" and b: "streams c sid = Some i" and n: "sid \<notin> closed"
  shows "complete c < length (reqvec c)"
proof -
  have fin: "finite (dom (streams c))" using inv by (simp add: session_inv_def)
  have "card (dom (streams c)) \<le> card {..<length (reqvec c)}"
    using card_inj_on_le[OF streams_inj[OF inv] streams_range[OF inv]] by simp
  moreover have "dom (streams c) \<inter> closed \<subset> dom (streams c)" using b n by auto
  then have "card (dom (streams c) \<inter> closed) < card (dom (streams c))"
    using fin by (rule psubset_card_mono[rotated])
  ultimately show ?thesis using inv by (simp add: session_inv_def)
qed


lemma inv_grows:
  assumes inv: "session_inv c closed" and g: "grows c c'"
    and l: "length (reqvec c') = length (reqvec c) \<or> complete c < length (reqvec c)"
  shows "session_inv c' closed"
proof -
  let ?n = "length (reqvec c)" and ?n' = "length (reqvec c')"
  from g have f: "streams c' = streams c" "complete c' = complete c"
    "stream_user_data (session c') = stream_user_data (session c)" "?n \<le> ?n'"
    "goaways (submitted (session c')) = goaways (submitted (session c))"
    "pending (session c') = pending (session c) @ [?n..<?n']"
    by (simp_all add: grows_def)
  from inv have i: "finite (dom (streams c))" "complete c = card (dom (streams c) \<inter> closed)"
    "\<forall>sid i. streams c sid = Some i \<longrightarrow> stream_user_data (session c) sid = Some i"
    "\<forall>sid sid' i. stream_user_data (session c) sid = Some i \<longrightarrow>
         stream_user_data (session c) sid' = Some i \<longrightarrow> sid = sid'"
    "\<forall>sid i. stream_user_data (session c) sid = Some i \<longrightarrow> i < ?n"
    "distinct (pending (session c))"
    "\<forall>i \<in> set (pending (session c)). i < ?n \<and>
         (\<forall>sid. stream_user_data (session c) sid \<noteq> Some i)"
    "goaways (submitted (session c)) =
        (if complete c = ?n \<and> reqvec c \<noteq> [] then [NGHTTP2_NO_ERROR] else [])"
    by (simp_all add: session_inv_def)
  have d: "distinct (pending (session c'))"
    unfolding f(6) using i(6,7) by auto
  have p: "\<forall>j \<in> set (pending (session c')). j < ?n' \<and>
         (\<forall>sid. stream_user_data (session c') sid \<noteq> Some j)"
    unfolding f(3,6) using i(5,7) f(4) by fastforce
  have r: "\<forall>sid j. stream_user_data (session c') sid = Some j \<longrightarrow> j < ?n'"
    unfolding f(3) using i(5) f(4) by fastforce
  have ga: "goaways (submitted (session c')) =
        (if complete c' = ?n' \<and> reqvec c' \<noteq> [] then [NGHTTP2_NO_ERROR] else [])"
  proof (cases "?n' = ?n")
    case True
    then have "(reqvec c' \<noteq> []) = (reqvec c \<noteq> [])" by (metis length_0_conv)
    then show ?thesis unfolding f(2,5) i(8) using True by simp
  next
    case False
    with l have "complete c < ?n" by simp
    then show ?thesis unfolding f(2,5) i(8) using f(4) by simp
  qed
  show ?thesis
    unfolding session_inv_def f(1,2)
    using i(1,2,3,4) d p r ga unfolding f(1,2,3) by blast
qed

lemma inv_open_fields:
  assumes inv: "session_inv c closed"
    and r: "r \<in> set (pending (session c))"
    and fresh: "sid \<notin> dom (stream_user_data (session c))" and nc: "sid \<notin> closed"
    and f: "streams c' = (streams c)(sid \<mapsto> r)" "complete c' = complete c"
      "stream_user_data (session c') = (stream_user_data (session c))(sid \<mapsto> r)"
      "pending (session c') = remove1 r (pending (session c))"
      "length (reqvec c') = length (reqvec c)"
      "goaways (submitted (session c')) = goaways (submitted (session c))"
  shows "session_inv c' closed"
proof -
  from inv have i: "finite (dom (streams c))" "complete c = card (dom (streams c) \<inter> closed)"
    "\<forall>s i. streams c s = Some i \<longrightarrow> stream_user_data (session c) s = Some i"
    "\<forall>s s' i. stream_user_data (session c) s = Some i \<longrightarrow>
         stream_user_data (session c) s' = Some i \<longrightarrow> s = s'"
    "\<forall>s i. stream_user_data (session c) s = Some i \<longrightarrow> i < length (reqvec c)"
    "distinct (pending (session c))"
    "\<forall>i \<in> set (pending (session c)). i < length (reqvec c) \<and>
         (\<forall>s. stream_user_data (session c) s \<noteq> Some i)"
    "goaways (submitted (session c)) =
        (if complete c = length (reqvec c) \<and> reqvec c \<noteq> [] then [NGHTTP2_NO_ERROR] else [])"
    by (simp_all add: session_inv_def)
  have rl: "r < length (reqvec c)" and rn: "\<forall>s. stream_user_data (session c) s \<noteq> Some r"
    using i(7) r by auto
  have ne: "(reqvec c' \<noteq> []) = (reqvec c \<noteq> [])" using f(5) by (metis length_0_conv)
  have 1: "finite (dom (streams c'))" unfolding f(1) using i(1) by simp
  have 2: "complete c' = card (dom (streams c') \<inter> closed)"
    unfolding f(1,2) i(2) using nc by simp
  have 3: "\<forall>s i. streams c' s = Some i \<longrightarrow> stream_user_data (session c') s = Some i"
    unfolding f(1,3) using i(3) by auto
  have 4: "\<forall>s s' i. stream_user_data (session c') s = Some i \<longrightarrow>
         stream_user_data (session c') s' = Some i \<longrightarrow> s = s'"
    unfolding f(3) using i(4) rn by (auto split: if_splits)
  have 5: "\<forall>s i. stream_user_data (session c') s = Some i \<longrightarrow> i < length (reqvec c')"
    unfolding f(3,5) using i(5) rl by (auto split: if_splits)
  have 6: "distinct (pending (session c'))" unfolding f(4) using i(6) by simp
  have 7: "\<forall>i \<in> set (pending (session c')). i < length (reqvec c') \<and>
         (\<forall>s. stream_user_data (session c') s \<noteq> Some i)"
    unfolding f(3,4,5) using i(6,7) by (auto split: if_splits)
  have 8: "goaways (submitted (session c')) =
        (if complete c' = length (reqvec c') \<and> reqvec c' \<noteq> [] then [NGHTTP2_NO_ERROR] else [])"
    unfolding f(2,5,6) ne using i(8) .
  show ?thesis unfolding session_inv_def using 1 2 3 4 5 6 7 8 by blast
qed

lemma inv_open:
  assumes inv: "session_inv c closed"
    and r: "r \<in> set (pending (session c))"
    and fresh: "sid \<notin> dom (stream_user_data (session c))" and nc: "sid \<notin> closed"
    and fr: "hd_type frame = NGHTTP2_HEADERS" "headers_cat frame = NGHTTP2_HCAT_START_STREAM"
      "hd_stream_id frame = sid"
    and cb: "on_frame_send_callback2 ext config now (open_stream sid r c) frame = Inr c'"
  shows "session_inv c' closed"
proof -
  have rl: "r < length (reqvec c)" using inv r by (simp add: session_inv_def)
  from cb fr rl have
    "streams c' = (streams c)(sid \<mapsto> r) \<and> complete c' = complete c \<and>
     stream_user_data (session c') = (stream_user_data (session c))(sid \<mapsto> r) \<and>
     pending (session c') = remove1 r (pending (session c)) \<and>
     length (reqvec c') = length (reqvec c) \<and>
     goaways (submitted (session c')) = goaways (submitted (session c))"
    by (auto simp: on_frame_send_callback2_def check_stream_id_def open_stream_def set_stat_def
        split: if_splits)
  then show ?thesis using inv_open_fields[OF inv r fresh nc] by blast
qed

lemma inv_insert_unbound:
  assumes "session_inv c closed" and "streams c sid = None"
  shows "session_inv c (insert sid closed)"
proof -
  have "dom (streams c) \<inter> insert sid closed = dom (streams c) \<inter> closed"
    using assms(2) by auto
  then show ?thesis using assms(1) by (simp add: session_inv_def)
qed

lemma inv_close_fields:
  assumes inv: "session_inv c closed" and b: "streams c sid = Some i" and nc: "sid \<notin> closed"
    and f: "streams c' = streams c" "complete c' = complete c + 1"
      "stream_user_data (session c') = stream_user_data (session c)"
      "pending (session c') = pending (session c)"
      "length (reqvec c') = length (reqvec c)"
      "goaways (submitted (session c')) =
         goaways (submitted (session c)) @
           (if complete c + 1 = length (reqvec c) then [NGHTTP2_NO_ERROR] else [])"
  shows "session_inv c' (insert sid closed)"
proof -
  have lt: "complete c < length (reqvec c)" using inv_complete_lt[OF inv b nc] .
  from inv have i: "finite (dom (streams c))" "complete c = card (dom (streams c) \<inter> closed)"
    "goaways (submitted (session c)) =
        (if complete c = length (reqvec c) \<and> reqvec c \<noteq> [] then [NGHTTP2_NO_ERROR] else [])"
    by (simp_all add: session_inv_def)
  have ne: "reqvec c' \<noteq> []" using lt f(5) by auto
  have "dom (streams c) \<inter> insert sid closed = insert sid (dom (streams c) \<inter> closed)"
    using b by auto
  then have 2: "complete c' = card (dom (streams c') \<inter> insert sid closed)"
    unfolding f(1,2) i(2) using i(1) nc by simp
  have 8: "goaways (submitted (session c')) =
        (if complete c' = length (reqvec c') \<and> reqvec c' \<noteq> [] then [NGHTTP2_NO_ERROR] else [])"
    unfolding f(2,5,6) i(3) using lt ne by simp
  show ?thesis
    using inv 2 8 unfolding session_inv_def f(1,3,4,5) by blast
qed

lemma inv_close:
  assumes inv: "session_inv c closed" and nc: "sid \<notin> closed"
    and cb: "on_stream_close_callback ext config now c sid code = Inr c'"
  shows "session_inv c' (insert sid closed)"
proof (cases "streams c sid")
  case None
  then have "c' = c" using cb by (simp add: on_stream_close_callback_def)
  then show ?thesis using inv_insert_unbound[OF inv None] by simp
next
  case (Some i)
  from cb Some obtain c1 where
    u: "update_html_parser ext config c i [] 1 = Inr c1"
    and c': "c' = (let c2 = set_stat i (\<lambda>st. st \<lparr> on_complete_time := now \<rparr>) c1;
                      c3 = c2 \<lparr> complete := complete c2 + 1 \<rparr>
                  in if all_requests_processed c3 then submit_goaway NGHTTP2_NO_ERROR c3 else c3)"
    by (auto simp: on_stream_close_callback_def Let_def split: sum.splits)
  have g: "grows c c1" using update_html_parser_grows[OF u] .
  have lt: "complete c < length (reqvec c)" using inv_complete_lt[OF inv Some nc] .
  have inv1: "session_inv c1 closed" using inv_grows[OF inv g] lt by simp
  have b1: "streams c1 sid = Some i" using g Some by (simp add: grows_def)
  have "streams c' = streams c1 \<and> complete c' = complete c1 + 1 \<and>
      stream_user_data (session c') = stream_user_data (session c1) \<and>
      pending (session c') = pending (session c1) \<and>
      length (reqvec c') = length (reqvec c1) \<and>
      goaways (submitted (session c')) =
         goaways (submitted (session c1)) @
           (if complete c1 + 1 = length (reqvec c1) then [NGHTTP2_NO_ERROR] else [])"
    unfolding c'
    by (simp add: Let_def all_requests_processed_def submit_goaway_def set_stat_def
        goaways_append) (simp add: goaways_def)
  then show ?thesis using inv_close_fields[OF inv1 b1 nc] by blast
qed

lemma add_request_fields:
  "streams (snd (add_request ext config c s prd len lv)) = streams c \<and>
   complete (snd (add_request ext config c s prd len lv)) = complete c"
  by (simp add: add_request_def split: prod.splits)

lemma add_request_times_fields:
  "streams (add_request_times ext config k s prd len c) = streams c \<and>
   complete (add_request_times ext config k s prd len c) = complete c"
  by (induction k arbitrary: c) (simp_all add: add_request_fields)

lemma admit_requests_fields:
  "streams (admit_requests ext config rs c) = streams c \<and>
   complete (admit_requests ext config rs c) = complete c"
  by (induction rs arbitrary: c) (auto simp: add_request_times_fields)

lemma update_hostport_fields:
  "streams (update_hostport c) = streams c \<and> complete (update_hostport c) = complete c \<and>
   reqvec (update_hostport c) = reqvec c"
  by (simp add: update_hostport_def Let_def split: list.splits)

lemma submit_requests_effect:
  "submit_requests ext hdrs c js = Inr c' \<Longrightarrow>
   reqvec c' = reqvec c \<and> streams c' = streams c \<and> complete c' = complete c \<and>
   stream_user_data (session c') = stream_user_data (session c) \<and>
   goaways (submitted (session c')) = goaways (submitted (session c)) \<and>
   pending (session c') = pending (session c) @ js"
proof (induction js arbitrary: c)
  case Nil
  then show ?case by simp
next
  case (Cons j js)
  from Cons.prems obtain c1 where
    s: "submit_request ext c hdrs j = Inr c1" and r: "submit_requests ext hdrs c1 js = Inr c'"
    by (auto split: sum.splits)
  from submit_request_effect[OF s] Cons.IH[OF r] show ?case by simp
qed

lemma inv_base:
  assumes "on_connect ext config now 0 0 bev
             (update_hostport (admit_requests ext config rs HttpClient_new)) = Inr (0, bev', c)"
  shows "session_inv c {}"
proof -
  let ?c0 = "update_hostport (admit_requests ext config rs HttpClient_new)"
  have z: "streams ?c0 = Map.empty" "complete ?c0 = 0"
    by (simp_all add: update_hostport_fields admit_requests_fields HttpClient_new_def)
  let ?c2 = "?c0 \<lparr> handshake_time := now, session := nghttp2_session_client_new \<rparr>"
  from assms obtain iv where
    s: "submit_requests ext (headers config)
          (?c2 \<lparr> session := (session ?c2)
                \<lparr> submitted := submitted (session ?c2) @ [SubmitSettings iv] \<rparr> \<rparr>)
          [0..<length (reqvec ?c0)] = Inr c"
    by (auto simp: on_connect_def Let_def split: sum.splits if_splits)
  from submit_requests_effect[OF s] z have
    "reqvec c = reqvec ?c0" "streams c = Map.empty" "complete c = 0"
    "stream_user_data (session c) = Map.empty"
    "goaways (submitted (session c)) = []"
    "pending (session c) = [0..<length (reqvec ?c0)]"
    by (simp_all add: nghttp2_session_client_new_def goaways_def)
  then show ?thesis by (simp add: session_inv_def)
qed

lemma session_run_inv:
  "session_run ext config c closed \<Longrightarrow> session_inv c closed"
proof (induction rule: session_run.induct)
  case (connected now bev rs bev' client)
  then show ?case by (rule inv_base)
next
  case (stream_opened client closed r stream_id frame now client')
  then show ?case using inv_open by blast
next
  case (frame_sent client closed frame now client')
  from on_frame_send_other_grows[OF frame_sent(3) frame_sent(2)] frame_sent(4)
  show ?case using inv_grows by blast
next
  case (frame_received client closed now frame client')
  from on_frame_recv_grows[OF frame_received(2)] frame_received(3)
  show ?case using inv_grows by blast
next
  case (data_chunk client closed stream_id data client')
  have g: "grows client client'" using on_data_chunk_grows[OF data_chunk(3)] .
  show ?case
  proof (cases "streams client stream_id")
    case None
    then have "client' = client"
      using data_chunk(3) by (simp add: on_data_chunk_recv_callback_def)
    then show ?thesis using data_chunk(4) by simp
  next
    case (Some i)
    from inv_complete_lt[OF data_chunk(4) Some data_chunk(2)]
    show ?thesis using inv_grows[OF data_chunk(4) g] by simp
  qed
next
  case (stream_closed client closed stream_id now code client')
  then show ?case using inv_close by blast
qed







text \<open>A session that admits no request (\<^verbatim>\<open>-m 0\<close>) never gets one, and never submits a
  GOAWAY.\<close>

lemma admit_requests_none:
  "nat (multiply config) = 0 \<Longrightarrow> reqvec (admit_requests ext config rs c) = reqvec c"
  by (induction rs arbitrary: c) auto

lemma empty_session_stays_silent:
  assumes "session_run ext config c closed" and "multiply config \<le> 0"
  shows "reqvec c = [] \<and> goaways (submitted (session c)) = []"
proof -
  have "reqvec c = []"
    using assms
  proof (induction rule: session_run.induct)
    case (connected now bev rs bev' client)
    let ?c0 = "update_hostport (admit_requests ext config rs HttpClient_new)"
    have e: "reqvec ?c0 = []"
      using connected(2) by (simp add: update_hostport_fields admit_requests_none HttpClient_new_def)
    from connected(1) obtain c3 where
      "submit_requests ext (headers config) c3 [0..<length (reqvec ?c0)] = Inr client"
      "reqvec c3 = reqvec ?c0"
      by (auto simp: on_connect_def Let_def split: sum.splits if_splits)
    then show ?case using e by simp
  next
    case (stream_opened client closed r stream_id frame now client')
    from session_run_inv[OF stream_opened(1)] stream_opened(2)
    have "r < length (reqvec client)" by (simp add: session_inv_def)
    then show ?case using stream_opened by simp
  next
    case (frame_sent client closed frame now client')
    then show ?case using on_frame_send_other_grows by fastforce
  next
    case (frame_received client closed now frame client')
    then show ?case using on_frame_recv_grows by fastforce
  next
    case (data_chunk client closed stream_id data client')
    have "streams client stream_id = None"
    proof (cases "streams client stream_id")
      case (Some i)
      with session_run_inv[OF data_chunk(1)] have "i < length (reqvec client)"
        unfolding session_inv_def by blast
      then show ?thesis using data_chunk by simp
    qed simp
    then have "client' = client"
      using data_chunk(3) by (simp add: on_data_chunk_recv_callback_def)
    then show ?case using data_chunk by simp
  next
    case (stream_closed client closed stream_id now code client')
    have "streams client stream_id = None"
    proof (cases "streams client stream_id")
      case (Some i)
      with session_run_inv[OF stream_closed(1)] have "i < length (reqvec client)"
        unfolding session_inv_def by blast
      then show ?thesis using stream_closed by simp
    qed simp
    then have "client' = client"
      using stream_closed(3) by (simp add: on_stream_close_callback_def)
    then show ?case using stream_closed by simp
  qed
  then show ?thesis
    using session_run_inv[OF assms(1)] by (simp add: session_inv_def)
qed




end
